theory Spec2Isabelle
  imports Main "HOL-Library.Word" "HOL-Library.AList"
begin

section \<open>The values of the host language\<close>

text \<open>
  \<^verbatim>\<open>src/src/utils/datatransform.ts\<close> is one class, \<open>Transform\<close>, of static functions
  over untyped JavaScript values. Its own code is short; what it computes is decided by
  the platform functions it calls (\<open>Buffer.from\<close>, \<open>toString\<close>, \<open>JSON.stringify\<close>,
  \<open>JSON.parse\<close>, \<open>parseInt\<close>, \<open>parseFloat\<close>, \<open>new Date\<close>, lodash's \<open>isDate\<close>,
  \<open>isString\<close>, \<open>isArray\<close>, \<open>isObject\<close>, \<open>map\<close>, \<open>mapValues\<close>). The first sections
  model these after ECMA-262, ECMA-404, the Node.js Buffer and lodash 4; the section
  \<open>The Transform class\<close> then follows the source line by line.

  \<^item> A string is its sequence of UTF-16 code units.
  \<^item> A byte container holds 8-bit bytes.
  \<^item> A number is \<open>NaN\<close>, an infinity, or the finite decimal \<open>m * 10^e\<close>, written
    \<open>Fin m e\<close> and kept in lowest terms (\<open>m\<close> has no trailing zero; zero is \<open>Fin 0 0\<close>).
    The binary rounding of IEEE doubles is not modelled: a number is identified with
    the shortest decimal that denotes it, which is what \<open>Number::toString\<close> prints.
    Negative zero is identified with zero.
  \<^item> An object is the list of its own enumerable string-keyed properties in
    enumeration order. (The host enumerates integer-like keys first; that reordering is
    not modelled.)
  \<^item> A date is its time value: \<open>Some t\<close> milliseconds since the epoch, \<open>None\<close> for
    an invalid date.
  \<^item> A symbol is its description, a BigInt is its integer.
  A value is a finite tree of these kinds: a structure that contains itself cannot be
  written down here (on one, the recursion of \<open>normalizePayload\<close> does not end).
  Functions and the other built-in objects are outside the model.
\<close>

type_synonym byte = "8 word"
type_synonym codeunit = "16 word"
type_synonym jstring = "codeunit list"

definition u16 :: "string \<Rightarrow> jstring" where
  "u16 s = map of_char s"

datatype jsnum = NaN | PosInf | NegInf | Fin int int

datatype jsval =
    Undefined
  | Null
  | Bool bool
  | Num jsnum
  | Str jstring
  | Arr "jsval list"
  | Obj "(jstring \<times> jsval) list"
  | Date "int option"
  | Buffer "byte list"
  | Uint8Array "byte list"
  | Symbol jstring
  | BigInt int

datatype error = TypeError | SyntaxError | Thrown jstring

text \<open>An argument that the caller may leave out (\<open>undefined\<close>) or pass as \<open>null\<close>.\<close>

datatype 'a arg = Absent | IsNull | Given 'a

section \<open>Decimal digits and numbers\<close>

definition is_digit :: "codeunit \<Rightarrow> bool" where
  "is_digit c \<longleftrightarrow> 0x30 \<le> c \<and> c \<le> 0x39"

definition digit_val :: "codeunit \<Rightarrow> nat" where
  "digit_val c = unat c - 48"

definition digit_char :: "nat \<Rightarrow> codeunit" where
  "digit_char d = of_nat (48 + d)"

definition digits_val :: "jstring \<Rightarrow> nat" where
  "digits_val ds = foldl (\<lambda>a c. 10 * a + digit_val c) 0 ds"

text \<open>The decimal digits of a natural number, most significant first.\<close>

function digits :: "nat \<Rightarrow> jstring" where
  "digits n = (if n < 10 then [digit_char n] else digits (n div 10) @ [digit_char (n mod 10)])"
  by pat_completeness auto
termination
  by (relation "measure id") auto

declare digits.simps [simp del]

text \<open>Lowest terms: trailing zeros of the mantissa move into the exponent.\<close>

function dec_norm :: "int \<Rightarrow> int \<Rightarrow> jsnum" where
  "dec_norm m e =
     (if m = 0 then Fin 0 0
      else if m mod 10 = 0 then dec_norm (m div 10) (e + 1)
      else Fin m e)"
  by pat_completeness auto
termination
  by (relation "measure (\<lambda>(m, e). nat \<bar>m\<bar>)") auto

declare dec_norm.simps [simp del]

definition num_of_int :: "int \<Rightarrow> jsnum" where
  "num_of_int n = dec_norm n 0"

definition num_of_nat :: "nat \<Rightarrow> jsnum" where
  "num_of_nat n = num_of_int (int n)"

text \<open>
  \<open>Number::toString\<close> (ECMA-262, radix 10): with \<open>s\<close> the digits of the mantissa,
  \<open>k\<close> their count and \<open>n = k + e\<close> the position of the decimal point.
\<close>

definition finite_toString :: "int \<Rightarrow> int \<Rightarrow> jstring" where
  "finite_toString m e =
     (if m = 0 then u16 ''0''
      else (if m < 0 then u16 ''-'' else []) @
        (let s = digits (nat \<bar>m\<bar>); k = int (length s); n = k + e in
           if k \<le> n \<and> n \<le> 21 then s @ replicate (nat e) 0x30
           else if 0 < n \<and> n \<le> 21 then take (nat n) s @ u16 ''.'' @ drop (nat n) s
           else if - 6 < n \<and> n \<le> 0 then u16 ''0.'' @ replicate (nat (- n)) 0x30 @ s
           else (if k = 1 then s else take 1 s @ u16 ''.'' @ drop 1 s) @ u16 ''e'' @
                (if n - 1 < 0 then u16 ''-'' else u16 ''+'') @ digits (nat \<bar>n - 1\<bar>)))"

definition Number_toString :: "jsnum \<Rightarrow> jstring" where
  "Number_toString x =
     (case x of
        NaN \<Rightarrow> u16 ''NaN''
      | PosInf \<Rightarrow> u16 ''Infinity''
      | NegInf \<Rightarrow> u16 ''-Infinity''
      | Fin m e \<Rightarrow> (case dec_norm m e of Fin m' e' \<Rightarrow> finite_toString m' e' | _ \<Rightarrow> u16 ''NaN''))"

section \<open>UTF-8: \<open>Buffer.from(string)\<close> and \<open>buffer.toString('utf8')\<close>\<close>

definition is_high :: "codeunit \<Rightarrow> bool" where
  "is_high c \<longleftrightarrow> 0xD800 \<le> c \<and> c \<le> 0xDBFF"

definition is_low :: "codeunit \<Rightarrow> bool" where
  "is_low c \<longleftrightarrow> 0xDC00 \<le> c \<and> c \<le> 0xDFFF"

text \<open>The UTF-8 bytes of one code point.\<close>

definition utf8_point :: "nat \<Rightarrow> byte list" where
  "utf8_point cp =
     (if cp < 0x80 then [of_nat cp]
      else if cp < 0x800 then [of_nat (0xC0 + cp div 64), of_nat (0x80 + cp mod 64)]
      else if cp < 0x10000 then
        [of_nat (0xE0 + cp div 4096), of_nat (0x80 + cp div 64 mod 64), of_nat (0x80 + cp mod 64)]
      else
        [of_nat (0xF0 + cp div 262144), of_nat (0x80 + cp div 4096 mod 64),
         of_nat (0x80 + cp div 64 mod 64), of_nat (0x80 + cp mod 64)])"

text \<open>
  \<open>Buffer.from(s)\<close>: a surrogate pair is one code point; a surrogate on its own is
  written as U+FFFD.
\<close>

fun Buffer_from :: "jstring \<Rightarrow> byte list" where
  "Buffer_from [] = []"
| "Buffer_from (c # cs) =
     (if is_high c then
        (case cs of
           [] \<Rightarrow> utf8_point 0xFFFD
         | d # ds \<Rightarrow>
             if is_low d
             then utf8_point (0x10000 + (unat c - 0xD800) * 1024 + (unat d - 0xDC00)) @ Buffer_from ds
             else utf8_point 0xFFFD @ Buffer_from cs)
      else if is_low c then utf8_point 0xFFFD @ Buffer_from cs
      else utf8_point (unat c) @ Buffer_from cs)"

definition is_cont :: "byte \<Rightarrow> bool" where
  "is_cont b \<longleftrightarrow> 0x80 \<le> b \<and> b \<le> 0xBF"

text \<open>The code units of one code point.\<close>

definition utf16_point :: "nat \<Rightarrow> jstring" where
  "utf16_point cp =
     (if cp < 0x10000 then [of_nat cp]
      else [of_nat (0xD800 + (cp - 0x10000) div 1024), of_nat (0xDC00 + (cp - 0x10000) mod 1024)])"

text \<open>
  \<open>buffer.toString('utf8')\<close>: every maximal ill-formed part of the input decodes to
  one U+FFFD, and decoding goes on at the byte that ended it. The second byte of a
  sequence has a narrower range after \<open>E0\<close>, \<open>ED\<close>, \<open>F0\<close> and \<open>F4\<close> (no overlong form,
  no surrogate, nothing above U+10FFFF).
\<close>

definition second_ok :: "byte \<Rightarrow> byte \<Rightarrow> bool" where
  "second_ok b c \<longleftrightarrow>
     (if b = 0xE0 then 0xA0 \<le> c \<and> c \<le> 0xBF
      else if b = 0xED then 0x80 \<le> c \<and> c \<le> 0x9F
      else if b = 0xF0 then 0x90 \<le> c \<and> c \<le> 0xBF
      else if b = 0xF4 then 0x80 \<le> c \<and> c \<le> 0x8F
      else is_cont c)"

fun utf8_decode :: "byte list \<Rightarrow> jstring" where
  "utf8_decode [] = []"
| "utf8_decode (b # bs) =
     (if b < 0x80 then of_nat (unat b) # utf8_decode bs
      else if 0xC2 \<le> b \<and> b \<le> 0xDF then
        (case bs of
           [] \<Rightarrow> [0xFFFD]
         | c # r \<Rightarrow>
             if is_cont c
             then utf16_point ((unat b - 0xC0) * 64 + (unat c - 0x80)) @ utf8_decode r
             else 0xFFFD # utf8_decode bs)
      else if 0xE0 \<le> b \<and> b \<le> 0xEF then
        (case bs of
           [] \<Rightarrow> [0xFFFD]
         | c # r \<Rightarrow>
             if second_ok b c then
               (case r of
                  [] \<Rightarrow> [0xFFFD]
                | d # r' \<Rightarrow>
                    if is_cont d
                    then utf16_point ((unat b - 0xE0) * 4096 + (unat c - 0x80) * 64 + (unat d - 0x80))
                         @ utf8_decode r'
                    else 0xFFFD # utf8_decode r)
             else 0xFFFD # utf8_decode bs)
      else if 0xF0 \<le> b \<and> b \<le> 0xF4 then
        (case bs of
           [] \<Rightarrow> [0xFFFD]
         | c # r \<Rightarrow>
             if second_ok b c then
               (case r of
                  [] \<Rightarrow> [0xFFFD]
                | d # r' \<Rightarrow>
                    if is_cont d then
                      (case r' of
                         [] \<Rightarrow> [0xFFFD]
                       | f # r'' \<Rightarrow>
                           if is_cont f
                           then utf16_point ((unat b - 0xF0) * 262144 + (unat c - 0x80) * 4096
                                  + (unat d - 0x80) * 64 + (unat f - 0x80))
                                @ utf8_decode r''
                           else 0xFFFD # utf8_decode r')
                    else 0xFFFD # utf8_decode r)
             else 0xFFFD # utf8_decode bs)
      else 0xFFFD # utf8_decode bs)"

text \<open>
  \<open>Uint8Array.prototype.toString\<close> is \<open>Array.prototype.join\<close>: the decimal values of
  the bytes, separated by commas. (\<open>Buffer\<close> overrides it with the UTF-8 decoder.)
\<close>

fun join :: "jstring \<Rightarrow> jstring list \<Rightarrow> jstring" where
  "join sep [] = []"
| "join sep [x] = x"
| "join sep (x # y # ys) = x @ sep @ join sep (y # ys)"

definition typedarray_toString :: "byte list \<Rightarrow> jstring" where
  "typedarray_toString bs = join (u16 '','') (map (\<lambda>b. digits (unat b)) bs)"

section \<open>\<open>JSON.stringify\<close>\<close>

definition hex_digit :: "nat \<Rightarrow> codeunit" where
  "hex_digit d = (if d < 10 then of_nat (48 + d) else of_nat (87 + d))"

text \<open>\<open>\uXXXX\<close>, in lower-case hexadecimal.\<close>

definition unicode_escape :: "codeunit \<Rightarrow> jstring" where
  "unicode_escape c =
     [0x5C, 0x75] @
     map hex_digit [unat c div 4096, unat c div 256 mod 16, unat c div 16 mod 16, unat c mod 16]"

text \<open>
  \<open>QuoteJSONString\<close>: the quotation mark and the backslash are escaped, the control
  characters are written \<open>\b\<close>, \<open>\t\<close>, \<open>\n\<close>, \<open>\f\<close>, \<open>\r\<close> or \<open>\u00XX\<close>, a surrogate
  outside a pair is written \<open>\uXXXX\<close>, every other code unit stands for itself.
\<close>

fun quote_units :: "jstring \<Rightarrow> jstring" where
  "quote_units [] = []"
| "quote_units (c # cs) =
     (if c = 0x22 then [0x5C, 0x22] @ quote_units cs
      else if c = 0x5C then [0x5C, 0x5C] @ quote_units cs
      else if c = 0x08 then [0x5C, 0x62] @ quote_units cs
      else if c = 0x09 then [0x5C, 0x74] @ quote_units cs
      else if c = 0x0A then [0x5C, 0x6E] @ quote_units cs
      else if c = 0x0C then [0x5C, 0x66] @ quote_units cs
      else if c = 0x0D then [0x5C, 0x72] @ quote_units cs
      else if c < 0x20 then unicode_escape c @ quote_units cs
      else if is_high c then
        (case cs of
           [] \<Rightarrow> unicode_escape c
         | d # ds \<Rightarrow>
             if is_low d then c # d # quote_units ds
             else unicode_escape c @ quote_units cs)
      else if is_low c then unicode_escape c @ quote_units cs
      else c # quote_units cs)"

definition QuoteJSONString :: "jstring \<Rightarrow> jstring" where
  "QuoteJSONString s = 0x22 # quote_units s @ [0x22]"

text \<open>
  \<open>Date.prototype.toISOString\<close> of a valid time value, which \<open>JSON.stringify\<close> prints
  for a date: the civil date of the day number, then the time of day.
\<close>

definition pad :: "nat \<Rightarrow> int \<Rightarrow> jstring" where
  "pad w n = replicate (w - length (digits (nat n))) 0x30 @ digits (nat n)"

definition toISOString :: "int \<Rightarrow> jstring" where
  "toISOString t =
     (let ms = t mod 86400000;
          z = t div 86400000 + 719468;
          era = z div 146097;
          doe = z - era * 146097;
          yoe = (doe - doe div 1460 + doe div 36524 - doe div 146096) div 365;
          doy = doe - (365 * yoe + yoe div 4 - yoe div 100);
          mp = (5 * doy + 2) div 153;
          d = doy - (153 * mp + 2) div 5 + 1;
          m = (if mp < 10 then mp + 3 else mp - 9);
          y = yoe + era * 400 + (if m \<le> 2 then 1 else 0)
      in (if 0 \<le> y \<and> y \<le> 9999 then pad 4 y
          else (if y < 0 then u16 ''-'' else u16 ''+'') @ pad 6 \<bar>y\<bar>)
         @ u16 ''-'' @ pad 2 m @ u16 ''-'' @ pad 2 d
         @ u16 ''T'' @ pad 2 (ms div 3600000) @ u16 '':'' @ pad 2 (ms div 60000 mod 60)
         @ u16 '':'' @ pad 2 (ms div 1000 mod 60) @ u16 ''.'' @ pad 3 (ms mod 1000) @ u16 ''Z'')"

text \<open>
  The own enumerable string-keyed properties that lodash's \<open>keys\<close> lists, with their
  values: those of a plain object; the indexes of an array or of a byte container;
  none for a date or a primitive.
\<close>

definition index_props :: "jsval list \<Rightarrow> (jstring \<times> jsval) list" where
  "index_props vs = map (\<lambda>i. (digits i, vs ! i)) [0 ..< length vs]"

definition byte_nums :: "byte list \<Rightarrow> jsval list" where
  "byte_nums bs = map (\<lambda>b. Num (num_of_nat (unat b))) bs"

text \<open>
  \<open>JSON.stringify(v)\<close> with no replacer and no indentation, in two parts.
  \<open>SerializeJSONProperty\<close> is the text of a value; \<open>None\<close> is the result \<open>undefined\<close>,
  which \<open>undefined\<close> itself and a symbol have. Inside an array such a value is printed
  as \<open>null\<close>; inside an object its property is left out. A number that is not finite
  is printed as \<open>null\<close>. A date and a \<open>Buffer\<close> are printed through their \<open>toJSON\<close>,
  a typed array as the object of its indexes.

  A BigInt has no text: \<open>JSON.stringify\<close> raises a \<open>TypeError\<close> when it comes to one.
  It comes to every element of an array and to every property of an object, so it
  raises exactly when the value holds a BigInt (\<open>holds_BigInt\<close>), and
  \<open>SerializeJSONProperty\<close> is only asked for the text of a value that holds none (its
  equation for a BigInt is never used).
\<close>

fun stringify_num :: "jsnum \<Rightarrow> jstring" where
  "stringify_num (Fin m e) = Number_toString (Fin m e)"
| "stringify_num _ = u16 ''null''"

definition stringify_nums :: "byte list \<Rightarrow> jstring list" where
  "stringify_nums bs = map (\<lambda>b. stringify_num (num_of_nat (unat b))) bs"

fun SerializeJSONProperty :: "jsval \<Rightarrow> jstring option" where
  "SerializeJSONProperty Undefined = None"
| "SerializeJSONProperty Null = Some (u16 ''null'')"
| "SerializeJSONProperty (Bool b) = Some (if b then u16 ''true'' else u16 ''false'')"
| "SerializeJSONProperty (Num n) = Some (stringify_num n)"
| "SerializeJSONProperty (Str s) = Some (QuoteJSONString s)"
| "SerializeJSONProperty (Arr vs) =
     Some (u16 ''['' @
           join (u16 '','')
             (map (\<lambda>v. case SerializeJSONProperty v of None \<Rightarrow> u16 ''null'' | Some t \<Rightarrow> t) vs)
           @ u16 '']'')"
| "SerializeJSONProperty (Obj kvs) =
     Some (u16 ''{'' @
           join (u16 '','')
             (concat (map (\<lambda>kv. case SerializeJSONProperty (snd kv) of
                                   None \<Rightarrow> []
                                 | Some t \<Rightarrow> [QuoteJSONString (fst kv) @ u16 '':'' @ t]) kvs))
           @ u16 ''}'')"
| "SerializeJSONProperty (Date None) = Some (u16 ''null'')"
| "SerializeJSONProperty (Date (Some t)) = Some (QuoteJSONString (toISOString t))"
| "SerializeJSONProperty (Buffer bs) =
     Some (u16 ''{\"type\":\"Buffer\",\"data\":['' @ join (u16 '','') (stringify_nums bs) @ u16 '']}'')"
| "SerializeJSONProperty (Uint8Array bs) =
     Some (u16 ''{'' @
           join (u16 '','')
             (map (\<lambda>i. QuoteJSONString (digits i) @ u16 '':'' @ stringify_nums bs ! i)
                [0 ..< length bs])
           @ u16 ''}'')"
| "SerializeJSONProperty (Symbol d) = None"
| "SerializeJSONProperty (BigInt n) = None"

fun holds_BigInt :: "jsval \<Rightarrow> bool" where
  "holds_BigInt (BigInt n) = True"
| "holds_BigInt (Arr vs) = list_ex holds_BigInt vs"
| "holds_BigInt (Obj kvs) = list_ex (\<lambda>kv. holds_BigInt (snd kv)) kvs"
| "holds_BigInt _ = False"

definition JSON_stringify :: "jsval \<Rightarrow> error + jstring option" where
  "JSON_stringify v = (if holds_BigInt v then Inl TypeError else Inr (SerializeJSONProperty v))"

section \<open>\<open>JSON.parse\<close>\<close>

definition is_ws :: "codeunit \<Rightarrow> bool" where
  "is_ws c \<longleftrightarrow> c = 0x20 \<or> c = 0x09 \<or> c = 0x0A \<or> c = 0x0D"

definition hex_val :: "codeunit \<Rightarrow> nat option" where
  "hex_val c =
     (if 0x30 \<le> c \<and> c \<le> 0x39 then Some (unat c - 48)
      else if 0x41 \<le> c \<and> c \<le> 0x46 then Some (unat c - 55)
      else if 0x61 \<le> c \<and> c \<le> 0x66 then Some (unat c - 87)
      else None)"

text \<open>The character that a one-letter escape stands for.\<close>

definition unescape :: "codeunit \<Rightarrow> codeunit option" where
  "unescape e =
     (if e = 0x22 \<or> e = 0x5C \<or> e = 0x2F then Some e
      else if e = 0x62 then Some 0x08
      else if e = 0x66 then Some 0x0C
      else if e = 0x6E then Some 0x0A
      else if e = 0x72 then Some 0x0D
      else if e = 0x74 then Some 0x09
      else None)"

text \<open>
  The characters of a string up to its closing quotation mark (the opening one has been
  read), and what follows it. \<open>None\<close> is a syntax error.
\<close>

fun parse_chars :: "jstring \<Rightarrow> (jstring \<times> jstring) option" where
  "parse_chars [] = None"
| "parse_chars (c # cs) =
     (if c = 0x22 then Some ([], cs)
      else if c = 0x5C then
        (case cs of
           [] \<Rightarrow> None
         | e # r \<Rightarrow>
             if e = 0x75 then
               (case r of
                  h1 # h2 # h3 # h4 # r' \<Rightarrow>
                    (case (hex_val h1, hex_val h2, hex_val h3, hex_val h4) of
                       (Some a, Some b, Some c, Some d) \<Rightarrow>
                         map_option (\<lambda>(s, rest). (of_nat (4096 * a + 256 * b + 16 * c + d) # s, rest))
                           (parse_chars r')
                     | _ \<Rightarrow> None)
                | _ \<Rightarrow> None)
             else
               (case unescape e of
                  None \<Rightarrow> None
                | Some u \<Rightarrow> map_option (\<lambda>(s, rest). (u # s, rest)) (parse_chars r)))
      else if c < 0x20 then None
      else map_option (\<lambda>(s, rest). (c # s, rest)) (parse_chars cs))"

text \<open>
  A number: an optional minus, an integer part without a leading zero, an optional
  fraction, an optional exponent.
\<close>

definition parse_frac :: "jstring \<Rightarrow> (jstring \<times> jstring) option" where
  "parse_frac cs =
     (case cs of
        [] \<Rightarrow> Some ([], [])
      | c # r \<Rightarrow>
          if c = 0x2E then
            (if takeWhile is_digit r = [] then None
             else Some (takeWhile is_digit r, dropWhile is_digit r))
          else Some ([], cs))"

definition parse_sign :: "jstring \<Rightarrow> int \<times> jstring" where
  "parse_sign cs =
     (case cs of
        [] \<Rightarrow> (1, [])
      | s # r \<Rightarrow> if s = 0x2B then (1, r) else if s = 0x2D then (- 1, r) else (1, cs))"

definition parse_exp :: "jstring \<Rightarrow> (int \<times> jstring) option" where
  "parse_exp cs =
     (case cs of
        [] \<Rightarrow> Some (0, [])
      | c # r \<Rightarrow>
          if c = 0x65 \<or> c = 0x45 then
            (let (sg, r1) = parse_sign r in
               if takeWhile is_digit r1 = [] then None
               else Some (sg * int (digits_val (takeWhile is_digit r1)), dropWhile is_digit r1))
          else Some (0, cs))"

definition parse_number :: "jstring \<Rightarrow> (jsnum \<times> jstring) option" where
  "parse_number cs =
     (let neg = (take 1 cs = [0x2D]);
          cs1 = (if neg then drop 1 cs else cs);
          ip = (if take 1 cs1 = [0x30] then [0x30] else takeWhile is_digit cs1);
          cs2 = drop (length ip) cs1
      in if ip = [] then None
         else
           (case parse_frac cs2 of
              None \<Rightarrow> None
            | Some (fp, cs3) \<Rightarrow>
                (case parse_exp cs3 of
                   None \<Rightarrow> None
                 | Some (ex, cs4) \<Rightarrow>
                     Some (dec_norm ((if neg then - 1 else 1) * int (digits_val (ip @ fp)))
                             (ex - int (length fp)), cs4))))"

definition parse_literal :: "jstring \<Rightarrow> (jsval \<times> jstring) option" where
  "parse_literal cs =
     (if take 4 cs = u16 ''true'' then Some (Bool True, drop 4 cs)
      else if take 5 cs = u16 ''false'' then Some (Bool False, drop 5 cs)
      else if take 4 cs = u16 ''null'' then Some (Null, drop 4 cs)
      else None)"

text \<open>
  The members of an object literal become properties in the order read; a key that
  comes again overwrites the value and keeps its place.
\<close>

definition make_object :: "(jstring \<times> jsval) list \<Rightarrow> (jstring \<times> jsval) list" where
  "make_object ms = foldl (\<lambda>ps kv. AList.update (fst kv) (snd kv) ps) [] ms"

lemma length_dropWhile_ws: "dropWhile is_ws cs = c # r \<Longrightarrow> length r < length cs"
proof -
  assume h: "dropWhile is_ws cs = c # r"
  have "length (dropWhile is_ws cs) \<le> length cs"
    by (rule length_dropWhile_le)
  with h show ?thesis by simp
qed

lemma parse_chars_shorter: "parse_chars cs = Some (s, r) \<Longrightarrow> length r < length cs"
proof (induction cs arbitrary: s r rule: parse_chars.induct)
  case 1
  then show ?case by simp
next
  case (2 c cs)
  then show ?case
    by (fastforce split: if_splits list.splits option.splits)
qed

text \<open>
  A value, the elements of an array after its bracket, the members of an object after
  its brace; each returns what it read and the rest of the input. The parser descends
  recursively; the tests \<open>length r < length cs\<close> on what a recursive call left are
  there for the termination proof and always hold (\<open>parse_value_shorter\<close>).
\<close>

function parse_value :: "jstring \<Rightarrow> (jsval \<times> jstring) option"
  and parse_elems :: "jstring \<Rightarrow> (jsval list \<times> jstring) option"
  and parse_members :: "jstring \<Rightarrow> ((jstring \<times> jsval) list \<times> jstring) option"
where
  "parse_value cs =
     (case dropWhile is_ws cs of
        [] \<Rightarrow> None
      | c # r \<Rightarrow>
          if c = 0x7B then
            (case dropWhile is_ws r of
               [] \<Rightarrow> None
             | d # r' \<Rightarrow>
                 if d = 0x7D then Some (Obj [], r')
                 else map_option (\<lambda>(ms, rest). (Obj (make_object ms), rest)) (parse_members r))
          else if c = 0x5B then
            (case dropWhile is_ws r of
               [] \<Rightarrow> None
             | d # r' \<Rightarrow>
                 if d = 0x5D then Some (Arr [], r')
                 else map_option (\<lambda>(vs, rest). (Arr vs, rest)) (parse_elems r))
          else if c = 0x22 then map_option (\<lambda>(s, rest). (Str s, rest)) (parse_chars r)
          else if c = 0x2D \<or> is_digit c then
            map_option (\<lambda>(n, rest). (Num n, rest)) (parse_number (c # r))
          else parse_literal (c # r))"
| "parse_elems cs =
     (case parse_value cs of
        None \<Rightarrow> None
      | Some (v, r) \<Rightarrow>
          if length r < length cs then
            (case dropWhile is_ws r of
               [] \<Rightarrow> None
             | d # r' \<Rightarrow>
                 if d = 0x5D then Some ([v], r')
                 else if d = 0x2C then map_option (\<lambda>(vs, rest). (v # vs, rest)) (parse_elems r')
                 else None)
          else None)"
| "parse_members cs =
     (case dropWhile is_ws cs of
        [] \<Rightarrow> None
      | q # r \<Rightarrow>
          if q = 0x22 then
            (case parse_chars r of
               None \<Rightarrow> None
             | Some (k, r1) \<Rightarrow>
                 (case dropWhile is_ws r1 of
                    [] \<Rightarrow> None
                  | col # r2 \<Rightarrow>
                      if col = 0x3A then
                        (case parse_value r2 of
                           None \<Rightarrow> None
                         | Some (v, r3) \<Rightarrow>
                             if length r3 < length cs then
                               (case dropWhile is_ws r3 of
                                  [] \<Rightarrow> None
                                | d # r4 \<Rightarrow>
                                    if d = 0x7D then Some ([(k, v)], r4)
                                    else if d = 0x2C then
                                      map_option (\<lambda>(ms, rest). ((k, v) # ms, rest)) (parse_members r4)
                                    else None)
                             else None)
                      else None))
          else None)"
  by pat_completeness auto
termination
proof (relation "measure (\<lambda>x. case x of
          Inl cs \<Rightarrow> 2 * length cs
        | Inr (Inl cs) \<Rightarrow> 2 * length cs + 1
        | Inr (Inr cs) \<Rightarrow> 2 * length cs + 1)", goal_cases)
  case 1
  then show ?case by simp
next
  case (2 cs c r d r')
  then show ?case using length_dropWhile_ws [of cs c r] by simp
next
  case (3 cs c r d r')
  then show ?case using length_dropWhile_ws [of cs c r] by simp
next
  case (4 cs)
  then show ?case by simp
next
  case (5 cs x v r d r')
  then show ?case using length_dropWhile_ws [of r d r'] by simp
next
  case (6 cs q r x k r1 col r2)
  then show ?case
    using length_dropWhile_ws [of cs q r] parse_chars_shorter [of r k r1]
      length_dropWhile_ws [of r1 col r2] by simp
next
  case (7 cs q r x k r1 col r2 y v r3 d r4)
  then show ?case using length_dropWhile_ws [of r3 d r4] by simp
qed

declare parse_value.simps [simp del] parse_elems.simps [simp del] parse_members.simps [simp del]

definition JSON_parse :: "jstring \<Rightarrow> error + jsval" where
  "JSON_parse t =
     (case parse_value t of
        None \<Rightarrow> Inl SyntaxError
      | Some (v, r) \<Rightarrow> if dropWhile is_ws r = [] then Inr v else Inl SyntaxError)"

section \<open>\<open>parseInt\<close>, \<open>parseFloat\<close>, \<open>new Date\<close>\<close>

text \<open>The white space that \<open>parseInt\<close> and \<open>parseFloat\<close> skip (\<open>StrWhiteSpaceChar\<close>).\<close>

definition is_StrWhiteSpaceChar :: "codeunit \<Rightarrow> bool" where
  "is_StrWhiteSpaceChar c \<longleftrightarrow>
     c = 0x09 \<or> c = 0x0A \<or> c = 0x0B \<or> c = 0x0C \<or> c = 0x0D \<or> c = 0x20 \<or> c = 0xA0
     \<or> c = 0x1680 \<or> (0x2000 \<le> c \<and> c \<le> 0x200A) \<or> c = 0x2028 \<or> c = 0x2029
     \<or> c = 0x202F \<or> c = 0x205F \<or> c = 0x3000 \<or> c = 0xFEFF"

text \<open>
  \<open>parseInt(s, 10)\<close>: white space is skipped, a sign is read, then the longest run
  of decimal digits; \<open>None\<close> is \<open>NaN\<close> (no digit there). The result is the exact
  integer.
\<close>

definition parseInt10 :: "jstring \<Rightarrow> int option" where
  "parseInt10 s =
     (let t = dropWhile is_StrWhiteSpaceChar s;
          t1 = (if take 1 t = [0x2D] \<or> take 1 t = [0x2B] then drop 1 t else t);
          ds = takeWhile is_digit t1
      in if ds = [] then None
         else Some ((if take 1 t = [0x2D] then - 1 else 1) * int (digits_val ds)))"

text \<open>
  \<open>parseFloat(s)\<close>: white space is skipped, then the longest prefix that is a decimal
  literal (sign, digits, fraction, exponent, or \<open>Infinity\<close>) is read.
\<close>

definition parseFloat :: "jstring \<Rightarrow> jsnum" where
  "parseFloat s =
     (let t = dropWhile is_StrWhiteSpaceChar s;
          neg = (take 1 t = [0x2D]);
          t1 = (if take 1 t = [0x2D] \<or> take 1 t = [0x2B] then drop 1 t else t)
      in if take 8 t1 = u16 ''Infinity'' then (if neg then NegInf else PosInf)
         else
           (let ip = takeWhile is_digit t1;
                t2 = dropWhile is_digit t1;
                dot = (take 1 t2 = [0x2E]);
                fp = (if dot then takeWhile is_digit (drop 1 t2) else []);
                t3 = (if dot then dropWhile is_digit (drop 1 t2) else t2)
            in if ip = [] \<and> fp = [] then NaN
               else dec_norm ((if neg then - 1 else 1) * int (digits_val (ip @ fp)))
                      ((case parse_exp t3 of None \<Rightarrow> 0 | Some (ex, _) \<Rightarrow> ex) - int (length fp))))"

text \<open>
  \<open>new Date(n)\<close> for a number \<open>n\<close>: the time value is clipped, so that \<open>NaN\<close> and
  everything beyond 8.64e15 milliseconds give an invalid date.
\<close>

definition new_Date :: "int option \<Rightarrow> jsval" where
  "new_Date n =
     (case n of
        None \<Rightarrow> Date None
      | Some t \<Rightarrow> if \<bar>t\<bar> \<le> 8640000000000000 then Date (Some t) else Date None)"

text \<open>\<open>date.getTime()\<close>: the time value, \<open>NaN\<close> for an invalid date.\<close>

definition getTime :: "int option \<Rightarrow> jsnum" where
  "getTime d = (case d of None \<Rightarrow> NaN | Some t \<Rightarrow> num_of_int t)"

text \<open>\<open>Number(x) === v\<close>: strict equality of a number with any value.\<close>

definition number_strict_equals :: "jsnum \<Rightarrow> jsval \<Rightarrow> bool" where
  "number_strict_equals n v = (case v of Num m \<Rightarrow> n \<noteq> NaN \<and> m = n | _ \<Rightarrow> False)"

section \<open>lodash\<close>

definition isDate :: "jsval \<Rightarrow> bool" where
  "isDate v = (case v of Date _ \<Rightarrow> True | _ \<Rightarrow> False)"

definition isString :: "jsval \<Rightarrow> bool" where
  "isString v = (case v of Str _ \<Rightarrow> True | _ \<Rightarrow> False)"

definition isArray :: "jsval \<Rightarrow> bool" where
  "isArray v = (case v of Arr _ \<Rightarrow> True | _ \<Rightarrow> False)"

text \<open>\<open>_.isObject\<close>: everything that is not a primitive, so also a date and an array.\<close>

definition isObject :: "jsval \<Rightarrow> bool" where
  "isObject v =
     (case v of
        Arr _ \<Rightarrow> True | Obj _ \<Rightarrow> True | Date _ \<Rightarrow> True
      | Buffer _ \<Rightarrow> True | Uint8Array _ \<Rightarrow> True
      | _ \<Rightarrow> False)"

definition isSymbol :: "jsval \<Rightarrow> bool" where
  "isSymbol v = (case v of Symbol _ \<Rightarrow> True | _ \<Rightarrow> False)"

definition instanceof_Buffer :: "jsval \<Rightarrow> bool" where
  "instanceof_Buffer v = (case v of Buffer _ \<Rightarrow> True | _ \<Rightarrow> False)"

text \<open>The elements that \<open>_.map\<close> visits, and the properties that \<open>_.mapValues\<close> visits.\<close>

definition elements :: "jsval \<Rightarrow> jsval list" where
  "elements v = (case v of Arr vs \<Rightarrow> vs | _ \<Rightarrow> [])"

definition own_props :: "jsval \<Rightarrow> (jstring \<times> jsval) list" where
  "own_props v =
     (case v of
        Obj kvs \<Rightarrow> kvs
      | Arr vs \<Rightarrow> index_props vs
      | Buffer bs \<Rightarrow> index_props (byte_nums bs)
      | Uint8Array bs \<Rightarrow> index_props (byte_nums bs)
      | _ \<Rightarrow> [])"

definition mapValues :: "(jsval \<Rightarrow> jsval) \<Rightarrow> (jstring \<times> jsval) list \<Rightarrow> (jstring \<times> jsval) list" where
  "mapValues f kvs = map (\<lambda>kv. (fst kv, f (snd kv))) kvs"

section \<open>The Transform class\<close>

subsection \<open>\<open>normalizePayload\<close> (lines 229-246)\<close>

fun weight :: "jsval \<Rightarrow> nat" where
  "weight (Arr vs) = Suc (sum_list (map weight vs))"
| "weight (Obj kvs) = Suc (sum_list (map (\<lambda>kv. weight (snd kv)) kvs))"
| "weight (Buffer bs) = 1"
| "weight (Uint8Array bs) = 1"
| "weight _ = 0"

lemma weight_elements: "isArray v \<Longrightarrow> x \<in> set (elements v) \<Longrightarrow> weight x < weight v"
  by (cases v) (auto simp: isArray_def elements_def less_Suc_eq_le member_le_sum_list)

lemma weight_own_props:
  assumes "\<not> isArray v" and "\<not> isDate v" and "kv \<in> set (own_props v)"
  shows "weight (snd kv) < weight v"
proof (cases v)
  case (Obj kvs)
  with assms have "kv \<in> set kvs" by (simp add: own_props_def)
  then have "weight (snd kv) \<le> sum_list (map (\<lambda>kv. weight (snd kv)) kvs)"
    by (simp add: member_le_sum_list)
  with Obj show ?thesis by simp
qed (use assms in \<open>auto simp: own_props_def isArray_def isDate_def index_props_def byte_nums_def\<close>)

lemma mapValues_cong [fundef_cong]:
  "kvs = kvs' \<Longrightarrow> (\<And>kv. kv \<in> set kvs' \<Longrightarrow> f (snd kv) = g (snd kv))
    \<Longrightarrow> mapValues f kvs = mapValues g kvs'"
  by (simp add: mapValues_def)

function normalizePayload :: "jsval \<Rightarrow> jsval" where
  "normalizePayload v =
     (if isDate v then Num (getTime (case v of Date d \<Rightarrow> d))
      else if isString v then v
      else if isArray v then Arr (map normalizePayload (elements v))
      else if isObject v then Obj (mapValues normalizePayload (own_props v))
      else v)"
  by pat_completeness auto
termination
  by (relation "measure weight") (auto simp: weight_elements weight_own_props)

declare normalizePayload.simps [simp del]

subsection \<open>\<open>serialize\<close> (lines 21-29)\<close>

text \<open>
  A \<open>Buffer\<close> is returned as it is. For a date or a string line 25 calls \<open>toString()\<close>
  on the normalized value, which is then a number or the string itself (lemma
  \<open>normalizePayload_date_or_string\<close>; the last case of the match is never reached).
  For everything else line 28 hands the text of \<open>JSON.stringify\<close> to \<open>Buffer.from\<close>,
  which raises a \<open>TypeError\<close> when that text is \<open>undefined\<close>; an error of
  \<open>JSON.stringify\<close> itself leaves the function as it is.
\<close>

definition serialize :: "jsval \<Rightarrow> error + byte list" where
  "serialize v =
     (if instanceof_Buffer v then Inr (case v of Buffer bs \<Rightarrow> bs)
      else if isDate v \<or> isString v then
        (case normalizePayload v of
           Num n \<Rightarrow> Inr (Buffer_from (Number_toString n))
         | Str s \<Rightarrow> Inr (Buffer_from s)
         | _ \<Rightarrow> Inl TypeError)
      else
        (case JSON_stringify (normalizePayload v) of
           Inl e \<Rightarrow> Inl e
         | Inr None \<Rightarrow> Inl TypeError
         | Inr (Some t) \<Rightarrow> Inr (Buffer_from t)))"

subsection \<open>\<open>bufferToObject\<close> (lines 39-60) and \<open>uInt8ArrayToObject\<close> (lines 62-83)\<close>

text \<open>
  \<open>Transform.logger\<close> is the one piece of state: the model threads the list of the
  \<open>logger.error(message, context)\<close> calls made so far.
\<close>

type_synonym logger = "(jstring \<times> jstring) list"

definition logger_error :: "jstring \<Rightarrow> jstring \<Rightarrow> logger \<Rightarrow> logger" where
  "logger_error message context_text lg = lg @ [(message, context_text)]"

definition bufferToObject :: "byte list arg \<Rightarrow> logger \<Rightarrow> (error + jsval) \<times> logger" where
  "bufferToObject buffer lg =
     (case buffer of
        Absent \<Rightarrow> (Inr Null, lg)
      | IsNull \<Rightarrow> (Inr Null, lg)
      | Given bs \<Rightarrow>
          if number_strict_equals (parseFloat (utf8_decode bs)) (Buffer bs) then (Inr (Buffer bs), lg)
          else
            (let bufferString = utf8_decode bs in
               if length bufferString \<le> 0 then (Inr Null, lg)
               else
                 (case JSON_parse bufferString of
                    Inr parsed \<Rightarrow> (Inr parsed, lg)
                  | Inl err \<Rightarrow>
                      (Inr (Str bufferString),
                       logger_error (u16 ''Error parsing buffer to JSON'') bufferString lg))))"

text \<open>
  A value of type \<open>Uint8Array\<close> is a Node \<open>Buffer\<close> (a subclass) or a plain typed
  array; \<open>toString()\<close> decodes the first as UTF-8 and joins the bytes of the second.
  Line 63 tests \<open>payload === null\<close>, so \<open>undefined\<close> goes on to line 67, where
  \<open>payload.toString()\<close> raises a \<open>TypeError\<close>.
\<close>

datatype uint8array = NodeBuffer "byte list" | TypedArray "byte list"

definition payload_toString :: "uint8array \<Rightarrow> jstring" where
  "payload_toString p =
     (case p of NodeBuffer bs \<Rightarrow> utf8_decode bs | TypedArray bs \<Rightarrow> typedarray_toString bs)"

definition payload_val :: "uint8array \<Rightarrow> jsval" where
  "payload_val p = (case p of NodeBuffer bs \<Rightarrow> Buffer bs | TypedArray bs \<Rightarrow> Uint8Array bs)"

definition uInt8ArrayToObject :: "uint8array arg \<Rightarrow> logger \<Rightarrow> (error + jsval) \<times> logger" where
  "uInt8ArrayToObject payload lg =
     (case payload of
        IsNull \<Rightarrow> (Inr Null, lg)
      | Absent \<Rightarrow> (Inl TypeError, lg)
      | Given p \<Rightarrow>
          if number_strict_equals (parseFloat (payload_toString p)) (payload_val p)
          then (Inr (payload_val p), lg)
          else
            (let payloadString = payload_toString p in
               if length payloadString \<le> 0 then (Inr Null, lg)
               else
                 (case JSON_parse payloadString of
                    Inr parsed \<Rightarrow> (Inr parsed, lg)
                  | Inl err \<Rightarrow>
                      (Inr (Str payloadString),
                       logger_error (u16 ''Error parsing Uint8Array to JSON'') payloadString lg))))"

subsection \<open>\<open>bufferToDate\<close> (lines 93-111) and \<open>bufferToString\<close> (lines 113-119)\<close>

text \<open>The regular expression \<open>/\d+/g\<close> matches a text that has a decimal digit.\<close>

definition regex_digits_test :: "jstring \<Rightarrow> bool" where
  "regex_digits_test s = list_ex is_digit s"

definition bufferToDate :: "byte list arg \<Rightarrow> jsval" where
  "bufferToDate buffer =
     (case buffer of
        Absent \<Rightarrow> Undefined
      | IsNull \<Rightarrow> Undefined
      | Given bs \<Rightarrow>
          (let bufferString = utf8_decode bs in
             if length bufferString \<le> 0 then Undefined
             else if regex_digits_test bufferString then new_Date (parseInt10 bufferString)
             else Undefined))"

definition bufferToString :: "byte list arg \<Rightarrow> jsval" where
  "bufferToString buffer =
     (case buffer of
        Absent \<Rightarrow> Null
      | IsNull \<Rightarrow> Null
      | Given bs \<Rightarrow> Str (utf8_decode bs))"

subsection \<open>The three drains (lines 127-219)\<close>

text \<open>
  What \<open>next()\<close> resolves to: \<open>res.value\<close> (\<open>None\<close> for \<open>undefined\<close>) and \<open>res.done\<close>.
  An item carries its payload \<open>value\<close> and, depending on the query, \<open>key\<close>,
  \<open>isDelete\<close>, \<open>txId\<close> and \<open>timestamp\<close> (here its \<open>seconds\<close>); \<open>None\<close> is a field that
  is not there.
\<close>

record item =
  item_value :: "byte list"
  item_key :: "jstring option"
  item_isDelete :: "bool option"
  item_txId :: "jstring option"
  item_timestamp :: "int option"

record next_result =
  res_value :: "item option"
  res_done :: bool

datatype step = Raises error | Yields next_result

text \<open>
  The iterator is the collaborator: \<open>script n\<close> is what its \<open>n\<close>-th call of \<open>next()\<close>
  does. The model counts the calls of \<open>next()\<close> and of \<open>close()\<close>.
\<close>

record iterator =
  script :: "nat \<Rightarrow> step"
  calls :: nat
  closed :: nat

definition it_next :: "iterator \<Rightarrow> step \<times> iterator" where
  "it_next it = (script it (calls it), it\<lparr>calls := Suc (calls it)\<rparr>)"

definition it_close :: "iterator \<Rightarrow> iterator" where
  "it_close it = it\<lparr>closed := Suc (closed it)\<rparr>"

text \<open>The records the key-value and the history drain build.\<close>

record KV =
  kv_key :: "jstring option"
  kv_value :: jsval

record KeyModificationItem =
  is_delete :: "bool option"
  kmi_value :: jsval
  kmi_timestamp :: int
  tx_id :: "jstring option"

text \<open>\<open>try { JSON.parse(t) } catch (err) { t }\<close>, as all three loops have it.\<close>

definition parse_or_raw :: "jstring \<Rightarrow> jsval" where
  "parse_or_raw t = (case JSON_parse t of Inr parsed \<Rightarrow> parsed | Inl err \<Rightarrow> Str t)"

text \<open>
  The three loop bodies, for an item that passed the test of lines 134, 163, 194.
  Line 210 reads \<open>.seconds\<close> of the timestamp, a \<open>TypeError\<close> when there is none.
\<close>

definition list_item :: "item \<Rightarrow> error + jsval" where
  "list_item i = Inr (parse_or_raw (utf8_decode (item_value i)))"

definition kv_item :: "item \<Rightarrow> error + KV" where
  "kv_item i = Inr \<lparr>kv_key = item_key i, kv_value = parse_or_raw (utf8_decode (item_value i))\<rparr>"

definition history_item :: "item \<Rightarrow> error + KeyModificationItem" where
  "history_item i =
     (let parsed = parse_or_raw (utf8_decode (item_value i)) in
        case item_timestamp i of
          None \<Rightarrow> Inl TypeError
        | Some seconds \<Rightarrow>
            Inr \<lparr>is_delete = item_isDelete i, kmi_value = parsed,
                 kmi_timestamp = seconds, tx_id = item_txId i\<rparr>)"

text \<open>
  One pass of the loop body on the result of \<open>next()\<close>: the test
  \<open>res.value && res.value.value.toString()\<close> and the push.
\<close>

definition push_item :: "(item \<Rightarrow> error + 'r) \<Rightarrow> next_result \<Rightarrow> 'r list \<Rightarrow> error + 'r list" where
  "push_item body res allResults =
     (case res_value res of
        None \<Rightarrow> Inr allResults
      | Some i \<Rightarrow>
          if utf8_decode (item_value i) \<noteq> [] then
            (case body i of Inl e \<Rightarrow> Inl e | Inr parsedItem \<Rightarrow> Inr (allResults @ [parsedItem]))
          else Inr allResults)"

text \<open>
  The loop \<open>while (res == null || !res.done) { res = await iterator.next(); ... }\<close>:
  the body runs, then \<open>done\<close> is tested. An error of \<open>next()\<close> or of the body leaves
  the function at once. The loop runs as long as the iterator does not report \<open>done\<close>,
  so it is a partial function: \<open>None\<close> is a run that never ends.
\<close>

partial_function (option) drain_loop ::
  "(item \<Rightarrow> error + 'r) \<Rightarrow> iterator \<Rightarrow> 'r list \<Rightarrow> ((error + 'r list) \<times> iterator) option"
where
  "drain_loop body it allResults =
     (case it_next it of
        (Raises e, it') \<Rightarrow> Some (Inl e, it')
      | (Yields res, it') \<Rightarrow>
          (case push_item body res allResults of
             Inl e \<Rightarrow> Some (Inl e, it')
           | Inr allResults' \<Rightarrow>
               if res_done res then Some (Inr allResults', it')
               else drain_loop body it' allResults'))"

text \<open>After the loop: \<open>await iterator.close(); return allResults\<close>.\<close>

definition drain ::
  "(item \<Rightarrow> error + 'r) \<Rightarrow> iterator \<Rightarrow> ((error + 'r list) \<times> iterator) option"
where
  "drain body it =
     (case drain_loop body it [] of
        None \<Rightarrow> None
      | Some (Inl e, it') \<Rightarrow> Some (Inl e, it')
      | Some (Inr allResults, it') \<Rightarrow> Some (Inr allResults, it_close it'))"

definition iteratorToList :: "iterator \<Rightarrow> ((error + jsval list) \<times> iterator) option" where
  "iteratorToList it = drain list_item it"

definition iteratorToKVList :: "iterator \<Rightarrow> ((error + KV list) \<times> iterator) option" where
  "iteratorToKVList it = drain kv_item it"

definition iteratorToHistoryList ::
  "iterator \<Rightarrow> ((error + KeyModificationItem list) \<times> iterator) option"
where
  "iteratorToHistoryList it = drain history_item it"

section \<open>Reference definitions, from the words of the specification\<close>

text \<open>
  The normalizer as section 4.1 of the specification describes it: a date becomes its
  time value, a string stays, an ordered sequence and a keyed mapping are rebuilt with
  normalized members, anything else is returned unchanged. In the specification's data
  model a binary byte sequence is neither an ordered sequence nor a keyed mapping, so it
  falls under "anything else".
\<close>

fun normalize_claimed :: "jsval \<Rightarrow> jsval" where
  "normalize_claimed (Date d) = Num (getTime d)"
| "normalize_claimed (Str s) = Str s"
| "normalize_claimed (Arr vs) = Arr (map normalize_claimed vs)"
| "normalize_claimed (Obj kvs) = Obj (map (\<lambda>(k, v). (k, normalize_claimed v)) kvs)"
| "normalize_claimed v = v"

text \<open>
  The same with one more case: a byte container becomes the mapping from its indexes,
  written in decimal, to its bytes as numbers.
\<close>

fun normalize_ref :: "jsval \<Rightarrow> jsval" where
  "normalize_ref (Date d) = Num (getTime d)"
| "normalize_ref (Str s) = Str s"
| "normalize_ref (Arr vs) = Arr (map normalize_ref vs)"
| "normalize_ref (Obj kvs) = Obj (map (\<lambda>(k, v). (k, normalize_ref v)) kvs)"
| "normalize_ref (Buffer bs) =
     Obj (map (\<lambda>i. (digits i, Num (num_of_nat (unat (bs ! i))))) [0 ..< length bs])"
| "normalize_ref (Uint8Array bs) =
     Obj (map (\<lambda>i. (digits i, Num (num_of_nat (unat (bs ! i))))) [0 ..< length bs])"
| "normalize_ref v = v"

text \<open>The first run of digits of a text, which the specification of \<open>bufferToDate\<close> names.\<close>

definition first_digit_run :: "jstring \<Rightarrow> jstring" where
  "first_digit_run s = takeWhile is_digit (dropWhile (\<lambda>c. \<not> is_digit c) s)"

text \<open>
  Vocabulary for the runs of a drain. A call of \<open>next()\<close> is quiet when it returns a
  result that is not \<open>done\<close> and the loop body does not raise on it. \<open>collected\<close> is
  what the bodies push over the calls \<open>a, ..., b - 1\<close>. A drain completes at call \<open>n\<close>
  when the calls before it are quiet and call \<open>n\<close> reports \<open>done\<close> with a body that
  does not raise; it is cut off at call \<open>n\<close> when the calls before it are quiet and
  call \<open>n\<close> raises.
\<close>

definition quiet :: "(item \<Rightarrow> error + 'r) \<Rightarrow> step \<Rightarrow> bool" where
  "quiet body st =
     (case st of
        Raises e \<Rightarrow> False
      | Yields res \<Rightarrow> \<not> res_done res \<and> (case push_item body res [] of Inl e \<Rightarrow> False | Inr rs \<Rightarrow> True))"

definition pushed :: "(item \<Rightarrow> error + 'r) \<Rightarrow> step \<Rightarrow> 'r list" where
  "pushed body st =
     (case st of
        Raises e \<Rightarrow> []
      | Yields res \<Rightarrow> (case push_item body res [] of Inl e \<Rightarrow> [] | Inr rs \<Rightarrow> rs))"

definition collected :: "(item \<Rightarrow> error + 'r) \<Rightarrow> (nat \<Rightarrow> step) \<Rightarrow> nat \<Rightarrow> nat \<Rightarrow> 'r list" where
  "collected body sc a b = concat (map (\<lambda>k. pushed body (sc k)) [a ..< b])"

definition quiet_until :: "(item \<Rightarrow> error + 'r) \<Rightarrow> iterator \<Rightarrow> nat \<Rightarrow> bool" where
  "quiet_until body it n \<longleftrightarrow> calls it \<le> n \<and> (\<forall>k. calls it \<le> k \<and> k < n \<longrightarrow> quiet body (script it k))"

definition completes_at :: "(item \<Rightarrow> error + 'r) \<Rightarrow> iterator \<Rightarrow> nat \<Rightarrow> bool" where
  "completes_at body it n \<longleftrightarrow>
     quiet_until body it n \<and>
     (case script it n of
        Raises e \<Rightarrow> False
      | Yields res \<Rightarrow> res_done res \<and> (case push_item body res [] of Inl e \<Rightarrow> False | Inr rs \<Rightarrow> True))"

definition cut_off_at :: "(item \<Rightarrow> error + 'r) \<Rightarrow> iterator \<Rightarrow> nat \<Rightarrow> error \<Rightarrow> bool" where
  "cut_off_at body it n e \<longleftrightarrow> quiet_until body it n \<and> script it n = Raises e"

text \<open>
  Sample iterators. \<open>sample_script\<close> yields three items with the payloads \<open>0\<close>, \<open>1\<close>,
  \<open>2\<close> and then reports \<open>done\<close> without a value; \<open>failing_script\<close> is the same with
  the second call of \<open>next()\<close> raising. \<open>history_script\<close> yields the history item of
  the specification's example, then one without a timestamp; \<open>history_done_script\<close>
  yields the first and then reports \<open>done\<close>.
\<close>

definition valued_item :: "jstring \<Rightarrow> item" where
  "valued_item t =
     \<lparr>item_value = Buffer_from t, item_key = None, item_isDelete = None,
      item_txId = None, item_timestamp = None\<rparr>"

definition finished :: step where
  "finished = Yields \<lparr>res_value = None, res_done = True\<rparr>"

definition sample_script :: "nat \<Rightarrow> step" where
  "sample_script k =
     (if k < 3 then Yields \<lparr>res_value = Some (valued_item (digits k)), res_done = False\<rparr>
      else finished)"

definition failing_script :: "nat \<Rightarrow> step" where
  "failing_script k = (if k = 1 then Raises (Thrown (u16 ''boom'')) else sample_script k)"

definition history_item_v :: item where
  "history_item_v =
     \<lparr>item_value = Buffer_from (u16 ''\"v\"''), item_key = None, item_isDelete = Some True,
      item_txId = Some (u16 ''tx1''), item_timestamp = Some 100\<rparr>"

definition history_script :: "nat \<Rightarrow> step" where
  "history_script k =
     (if k = 0 then Yields \<lparr>res_value = Some history_item_v, res_done = False\<rparr>
      else Yields \<lparr>res_value = Some (valued_item (u16 ''1'')), res_done = False\<rparr>)"

definition history_done_script :: "nat \<Rightarrow> step" where
  "history_done_script k =
     (if k = 0 then Yields \<lparr>res_value = Some history_item_v, res_done = False\<rparr> else finished)"

definition fresh :: "(nat \<Rightarrow> step) \<Rightarrow> iterator" where
  "fresh sc = \<lparr>script = sc, calls = 0, closed = 0\<rparr>"

text \<open>
  Vocabulary of the round trip. The JSON-safe values without dates are \<open>null\<close>, the
  booleans, numbers, strings, and the arrays and objects of such values, as far as the
  model holds them exactly:
  \<^item> a number is finite, in lowest terms (its mantissa has no trailing zero, zero is
    \<open>Fin 0 0\<close>), of at most 15 significant digits and well inside the range of a
    double. These are the decimals that denote a double of their own and that
    \<open>Number::toString\<close> prints digit for digit; what IEEE rounding does to a longer
    decimal is not modelled.
  \<^item> the keys of an object are distinct and stand in the order in which the host
    enumerates them: first the array indexes (\<open>0\<close>, \<open>1\<close>, ... below \<open>2^32 - 1\<close>, written
    without a leading zero) in ascending order, then the other keys, none of which
    looks like an integer.
\<close>

definition lowest_terms :: "jsnum \<Rightarrow> bool" where
  "lowest_terms x = (case x of Fin m e \<Rightarrow> (if m = 0 then e = 0 else m mod 10 \<noteq> 0) | _ \<Rightarrow> False)"

definition short_decimal :: "jsnum \<Rightarrow> bool" where
  "short_decimal x =
     (case x of Fin m e \<Rightarrow> \<bar>m\<bar> < 10 ^ 15 \<and> - 300 \<le> e \<and> e \<le> 290 | _ \<Rightarrow> False)"

definition canonical_numeric :: "jstring \<Rightarrow> bool" where
  "canonical_numeric k \<longleftrightarrow> k \<noteq> [] \<and> list_all is_digit k \<and> (k = [0x30] \<or> hd k \<noteq> 0x30)"

definition is_index :: "jstring \<Rightarrow> bool" where
  "is_index k \<longleftrightarrow> canonical_numeric k \<and> digits_val k < 4294967295"

definition host_ordered :: "jstring list \<Rightarrow> bool" where
  "host_ordered ks \<longleftrightarrow>
     sorted_wrt (<) (map digits_val (takeWhile is_index ks)) \<and>
     list_all (\<lambda>k. \<not> canonical_numeric k) (dropWhile is_index ks)"

fun json_safe :: "jsval \<Rightarrow> bool" where
  "json_safe Null = True"
| "json_safe (Bool b) = True"
| "json_safe (Num n) = (lowest_terms n \<and> short_decimal n)"
| "json_safe (Str s) = True"
| "json_safe (Arr vs) = list_all json_safe vs"
| "json_safe (Obj kvs) =
     (distinct (map fst kvs) \<and> host_ordered (map fst kvs) \<and> list_all (\<lambda>kv. json_safe (snd kv)) kvs)"
| "json_safe _ = False"

text \<open>
  The text of a value as an element of an array: \<open>null\<close> where \<open>JSON.stringify\<close> has
  none.
\<close>

definition json_text :: "jsval \<Rightarrow> jstring" where
  "json_text v = (case SerializeJSONProperty v of None \<Rightarrow> u16 ''null'' | Some t \<Rightarrow> t)"

text \<open>What may follow a value inside a JSON text: nothing, a comma or a closing bracket.\<close>

definition delim :: "jstring \<Rightarrow> bool" where
  "delim rest \<longleftrightarrow> rest = [] \<or> hd rest = 0x2C \<or> hd rest = 0x5D \<or> hd rest = 0x7D"

text \<open>
  A well-formed text has no surrogate outside a pair; its UTF-8 encoding decodes to
  itself.
\<close>

fun well_formed :: "jstring \<Rightarrow> bool" where
  "well_formed [] = True"
| "well_formed (c # cs) =
     (if is_high c then (case cs of [] \<Rightarrow> False | d # ds \<Rightarrow> is_low d \<and> well_formed ds)
      else \<not> is_low c \<and> well_formed cs)"

text \<open>What may follow a number: nothing, or a character that does not continue it.\<close>

definition num_end :: "jstring \<Rightarrow> bool" where
  "num_end rest \<longleftrightarrow>
     rest = [] \<or> (\<not> is_digit (hd rest) \<and> hd rest \<noteq> 0x2E \<and> hd rest \<noteq> 0x65 \<and> hd rest \<noteq> 0x45)"

text \<open>Putting a character in front of what a parser of characters returns.\<close>

definition keep :: "codeunit \<Rightarrow> (jstring \<times> jstring) option \<Rightarrow> (jstring \<times> jstring) option" where
  "keep c = map_option (\<lambda>(s, rest). (c # s, rest))"

text \<open>The text of one member of an object: the quoted key, a colon, the text of the value.\<close>

definition member_text :: "jstring \<times> jsval \<Rightarrow> jstring" where
  "member_text kv = QuoteJSONString (fst kv) @ [0x3A] @ json_text (snd kv)"

section \<open>Facts about the platform model\<close>

lemma utf16_point_not_Nil: "utf16_point cp \<noteq> []"
  by (simp add: utf16_point_def)

lemma utf8_decode_eq_Nil: "utf8_decode bs = [] \<longleftrightarrow> bs = []"
  by (cases bs) (auto simp: utf16_point_not_Nil split: list.splits)

lemma digits_not_Nil: "digits n \<noteq> []"
  by (subst digits.simps) simp

lemma join_eq_Nil: "(\<forall>x \<in> set xs. x \<noteq> []) \<Longrightarrow> join sep xs = [] \<longleftrightarrow> xs = []"
  by (induction sep xs rule: join.induct) auto

lemma typedarray_toString_eq_Nil: "typedarray_toString bs = [] \<longleftrightarrow> bs = []"
  by (simp add: typedarray_toString_def join_eq_Nil digits_not_Nil)

lemma payload_toString_eq_Nil:
  "payload_toString p = [] \<longleftrightarrow> p = NodeBuffer [] \<or> p = TypedArray []"
  by (cases p) (simp_all add: payload_toString_def utf8_decode_eq_Nil typedarray_toString_eq_Nil)

lemma number_ne_Buffer: "\<not> number_strict_equals n (Buffer bs)"
  by (simp add: number_strict_equals_def)

lemma number_ne_payload: "\<not> number_strict_equals n (payload_val p)"
  by (cases p) (simp_all add: number_strict_equals_def payload_val_def)

lemma bufferToObject_Given:
  "bufferToObject (Given bs) lg =
     (if bs = [] then (Inr Null, lg)
      else case JSON_parse (utf8_decode bs) of
             Inr parsed \<Rightarrow> (Inr parsed, lg)
           | Inl err \<Rightarrow> (Inr (Str (utf8_decode bs)),
                lg @ [(u16 ''Error parsing buffer to JSON'', utf8_decode bs)]))"
  by (simp add: bufferToObject_def number_ne_Buffer utf8_decode_eq_Nil logger_error_def Let_def
        split: sum.splits)

lemma uInt8ArrayToObject_Given:
  "uInt8ArrayToObject (Given p) lg =
     (if payload_toString p = [] then (Inr Null, lg)
      else case JSON_parse (payload_toString p) of
             Inr parsed \<Rightarrow> (Inr parsed, lg)
           | Inl err \<Rightarrow> (Inr (Str (payload_toString p)),
                lg @ [(u16 ''Error parsing Uint8Array to JSON'', payload_toString p)]))"
  by (simp add: uInt8ArrayToObject_def number_ne_payload logger_error_def Let_def split: sum.splits)

subsection \<open>\<open>normalizePayload\<close> case by case\<close>

lemma normalizePayload_Date: "normalizePayload (Date d) = Num (getTime d)"
  by (subst normalizePayload.simps) (simp add: isDate_def)

lemma normalizePayload_Str: "normalizePayload (Str s) = Str s"
  by (subst normalizePayload.simps) (simp add: isDate_def isString_def)

lemma normalizePayload_Arr: "normalizePayload (Arr vs) = Arr (map normalizePayload vs)"
  by (subst normalizePayload.simps) (simp add: isDate_def isString_def isArray_def elements_def)

lemma normalizePayload_Obj: "normalizePayload (Obj kvs) = Obj (mapValues normalizePayload kvs)"
  by (subst normalizePayload.simps)
     (simp add: isDate_def isString_def isArray_def isObject_def own_props_def)

lemma normalizePayload_Buffer:
  "normalizePayload (Buffer bs) = Obj (mapValues normalizePayload (index_props (byte_nums bs)))"
  by (subst normalizePayload.simps)
     (simp add: isDate_def isString_def isArray_def isObject_def own_props_def)

lemma normalizePayload_Uint8Array:
  "normalizePayload (Uint8Array bs) = Obj (mapValues normalizePayload (index_props (byte_nums bs)))"
  by (subst normalizePayload.simps)
     (simp add: isDate_def isString_def isArray_def isObject_def own_props_def)

lemma normalizePayload_primitive:
  "normalizePayload Undefined = Undefined" "normalizePayload Null = Null"
  "normalizePayload (Bool b) = Bool b" "normalizePayload (Num n) = Num n"
  "normalizePayload (Symbol d) = Symbol d" "normalizePayload (BigInt i) = BigInt i"
  by (subst normalizePayload.simps, simp add: isDate_def isString_def isArray_def isObject_def)+

lemmas normalizePayload_cases =
  normalizePayload_Date normalizePayload_Str normalizePayload_Arr normalizePayload_Obj
  normalizePayload_Buffer normalizePayload_Uint8Array normalizePayload_primitive

lemma normalizePayload_bytes:
  "mapValues normalizePayload (index_props (byte_nums bs)) =
     map (\<lambda>i. (digits i, Num (num_of_nat (unat (bs ! i))))) [0 ..< length bs]"
  by (simp add: mapValues_def index_props_def byte_nums_def normalizePayload_primitive)

lemma normalizePayload_Undefined_iff: "normalizePayload v = Undefined \<longleftrightarrow> v = Undefined"
  by (cases v) (simp_all add: normalizePayload_cases)

lemma normalizePayload_Symbol_iff: "isSymbol (normalizePayload v) \<longleftrightarrow> isSymbol v"
  by (cases v) (simp_all add: normalizePayload_cases isSymbol_def)

lemma SerializeJSONProperty_None_iff:
  "SerializeJSONProperty v = None \<longleftrightarrow> v = Undefined \<or> isSymbol v \<or> (\<exists>n. v = BigInt n)"
  by (cases v rule: SerializeJSONProperty.cases) (simp_all add: isSymbol_def)

lemma holds_BigInt_bytes:
  "\<not> list_ex (\<lambda>kv. holds_BigInt (snd kv))
       (map (\<lambda>i. (digits i, Num (num_of_nat (unat (bs ! i))))) [0 ..< length bs])"
  by (simp add: list_ex_iff)

lemma holds_BigInt_normalizePayload: "holds_BigInt (normalizePayload v) = holds_BigInt v"
proof (induction v)
  case (Arr vs)
  then show ?case by (simp add: normalizePayload_Arr list_ex_iff)
next
  case (Obj kvs)
  then have "\<And>kv. kv \<in> set kvs \<Longrightarrow> holds_BigInt (normalizePayload (snd kv)) = holds_BigInt (snd kv)"
    by (metis snds.intros)
  then show ?case by (simp add: normalizePayload_Obj mapValues_def list_ex_iff)
qed (simp_all add: normalizePayload_cases normalizePayload_bytes holds_BigInt_bytes)

lemma normalizePayload_date_or_string:
  "isDate v \<or> isString v \<Longrightarrow> (\<exists>n. normalizePayload v = Num n) \<or> (\<exists>s. normalizePayload v = Str s)"
  by (cases v) (simp_all add: isDate_def isString_def normalizePayload_cases)

lemma isObject_Date: "isObject (Date d)"
  by (simp add: isObject_def)

subsection \<open>\<open>parseInt\<close> on a text that starts with an integer\<close>

lemma digit_not_space: "is_digit c \<Longrightarrow> \<not> is_StrWhiteSpaceChar c"
  by (auto simp: is_digit_def is_StrWhiteSpaceChar_def word_le_nat_alt)

lemma dropWhile_all_then_stop:
  "list_all P xs \<Longrightarrow> ys = [] \<or> \<not> P (hd ys) \<Longrightarrow> dropWhile P (xs @ ys) = ys"
  by (induction xs) (cases ys; auto)+

lemma takeWhile_all_then_stop:
  "list_all P xs \<Longrightarrow> ys = [] \<or> \<not> P (hd ys) \<Longrightarrow> takeWhile P (xs @ ys) = xs"
  by (induction xs) (cases ys; auto)+

lemma parseInt10_shape:
  assumes ws: "list_all is_StrWhiteSpaceChar ws"
    and sg: "sg = [] \<or> sg = [0x2D] \<or> sg = [0x2B]"
    and ds: "ds \<noteq> []" "list_all is_digit ds"
    and rest: "rest = [] \<or> \<not> is_digit (hd rest)"
  shows "parseInt10 (ws @ sg @ ds @ rest) =
           Some ((if sg = [0x2D] then - 1 else 1) * int (digits_val ds))"
proof -
  from ds obtain d ds' where dd: "ds = d # ds'" "is_digit d"
    by (cases ds) auto
  have d_no: "d \<noteq> 0x2D" "d \<noteq> 0x2B" using dd(2) by (auto simp: is_digit_def)
  have stop: "sg @ ds @ rest = [] \<or> \<not> is_StrWhiteSpaceChar (hd (sg @ ds @ rest))"
    using sg dd digit_not_space [of d] by (auto simp: is_StrWhiteSpaceChar_def)
  have t: "dropWhile is_StrWhiteSpaceChar (ws @ sg @ ds @ rest) = sg @ ds @ rest"
    using dropWhile_all_then_stop [OF ws stop] .
  have tk: "takeWhile is_digit (ds @ rest) = ds"
    using takeWhile_all_then_stop [OF ds(2) rest] .
  from sg show ?thesis
  proof (elim disjE)
    assume "sg = []"
    then show ?thesis using t tk dd d_no ds by (simp add: parseInt10_def Let_def)
  next
    assume "sg = [0x2D]"
    then show ?thesis using t tk ds by (simp add: parseInt10_def Let_def)
  next
    assume "sg = [0x2B]"
    then show ?thesis using t tk ds by (simp add: parseInt10_def Let_def)
  qed
qed

subsection \<open>The drain loop, call by call\<close>

lemma push_item_acc:
  "push_item body res acc =
     (case push_item body res [] of Inl e \<Rightarrow> Inl e | Inr rs \<Rightarrow> Inr (acc @ rs))"
  by (simp add: push_item_def split: option.splits sum.splits)

lemma collected_step: "a < b \<Longrightarrow> collected body sc a b = pushed body (sc a) @ collected body sc (Suc a) b"
  by (simp add: collected_def upt_conv_Cons)

lemma collected_last: "a \<le> n \<Longrightarrow> collected body sc a (Suc n) = collected body sc a n @ pushed body (sc n)"
  by (simp add: collected_def)

lemma collected_empty: "collected body sc a a = []"
  by (simp add: collected_def)

lemma drain_loop_quiet_step:
  assumes "quiet body (script it (calls it))"
  shows "drain_loop body it acc =
           drain_loop body (it\<lparr>calls := Suc (calls it)\<rparr>) (acc @ pushed body (script it (calls it)))"
proof -
  from assms obtain res rs where r: "script it (calls it) = Yields res" "\<not> res_done res"
      "push_item body res [] = Inr rs"
    by (auto simp: quiet_def split: step.splits sum.splits)
  then have "push_item body res acc = Inr (acc @ rs)"
    by (subst push_item_acc) simp
  with r show ?thesis
    by (subst drain_loop.simps) (simp add: it_next_def pushed_def)
qed

lemma drain_loop_quiet_prefix:
  assumes "quiet_until body it n"
  shows "drain_loop body it acc =
           drain_loop body (it\<lparr>calls := n\<rparr>) (acc @ collected body (script it) (calls it) n)"
  using assms
proof (induction "n - calls it" arbitrary: it acc)
  case 0
  then have "calls it = n" by (simp add: quiet_until_def)
  then have "it\<lparr>calls := n\<rparr> = it" "collected body (script it) (calls it) n = []"
    by (auto simp: collected_empty)
  then show ?case by simp
next
  case (Suc d)
  then have lt: "calls it < n" by simp
  with Suc.prems have q: "quiet body (script it (calls it))"
    by (simp add: quiet_until_def)
  let ?it' = "it\<lparr>calls := Suc (calls it)\<rparr>"
  have "quiet_until body ?it' n"
    using Suc.prems lt by (simp add: quiet_until_def)
  moreover have "d = n - calls ?it'" using Suc.hyps(2) by simp
  ultimately have "drain_loop body ?it' (acc @ pushed body (script it (calls it))) =
      drain_loop body (?it'\<lparr>calls := n\<rparr>)
        ((acc @ pushed body (script it (calls it))) @ collected body (script ?it') (calls ?it') n)"
    by (rule Suc.hyps(1) [rotated])
  then show ?case
    using drain_loop_quiet_step [OF q, of acc] lt by (simp add: collected_step)
qed

lemma drain_loop_completes:
  assumes "completes_at body it n"
  shows "drain_loop body it [] =
           Some (Inr (collected body (script it) (calls it) (Suc n)), it\<lparr>calls := Suc n\<rparr>)"
proof -
  from assms have q: "quiet_until body it n" by (simp add: completes_at_def)
  from assms obtain res rs where r: "script it n = Yields res" "res_done res"
      "push_item body res [] = Inr rs"
    by (auto simp: completes_at_def split: step.splits sum.splits)
  let ?acc = "collected body (script it) (calls it) n"
  have "push_item body res ?acc = Inr (?acc @ rs)"
    using r by (subst push_item_acc) simp
  with r have "drain_loop body (it\<lparr>calls := n\<rparr>) ?acc = Some (Inr (?acc @ rs), it\<lparr>calls := Suc n\<rparr>)"
    by (subst drain_loop.simps) (simp add: it_next_def)
  moreover have "collected body (script it) (calls it) (Suc n) = ?acc @ rs"
    using q r by (simp add: collected_last quiet_until_def pushed_def)
  ultimately show ?thesis
    using drain_loop_quiet_prefix [OF q, of "[]"] by simp
qed

lemma drain_loop_cut_off:
  assumes "cut_off_at body it n e"
  shows "drain_loop body it [] = Some (Inl e, it\<lparr>calls := Suc n\<rparr>)"
proof -
  from assms have q: "quiet_until body it n" and r: "script it n = Raises e"
    by (simp_all add: cut_off_at_def)
  have "drain_loop body (it\<lparr>calls := n\<rparr>) (collected body (script it) (calls it) n) =
      Some (Inl e, it\<lparr>calls := Suc n\<rparr>)"
    using r by (subst drain_loop.simps) (simp add: it_next_def)
  then show ?thesis
    using drain_loop_quiet_prefix [OF q, of "[]"] by simp
qed

lemma drain_loop_body_raises:
  assumes "quiet_until body it n" and "script it n = Yields res"
    and "push_item body res [] = Inl e"
  shows "drain_loop body it [] = Some (Inl e, it\<lparr>calls := Suc n\<rparr>)"
proof -
  let ?acc = "collected body (script it) (calls it) n"
  have "push_item body res ?acc = Inl e"
    using assms(3) by (subst push_item_acc) simp
  with assms(2) have "drain_loop body (it\<lparr>calls := n\<rparr>) ?acc = Some (Inl e, it\<lparr>calls := Suc n\<rparr>)"
    by (subst drain_loop.simps) (simp add: it_next_def)
  then show ?thesis
    using drain_loop_quiet_prefix [OF assms(1), of "[]"] by simp
qed

lemma drain_completes:
  "completes_at body it n \<Longrightarrow>
     drain body it =
       Some (Inr (collected body (script it) (calls it) (Suc n)),
             it\<lparr>calls := Suc n, closed := Suc (closed it)\<rparr>)"
  by (simp add: drain_def drain_loop_completes it_close_def)

lemma drain_cut_off:
  "cut_off_at body it n e \<Longrightarrow> drain body it = Some (Inl e, it\<lparr>calls := Suc n\<rparr>)"
  by (simp add: drain_def drain_loop_cut_off)

lemma drain_body_raises:
  "quiet_until body it n \<Longrightarrow> script it n = Yields res \<Longrightarrow> push_item body res [] = Inl e
     \<Longrightarrow> drain body it = Some (Inl e, it\<lparr>calls := Suc n\<rparr>)"
  by (simp add: drain_def drain_loop_body_raises)

lemma sample_quiet: "k < 3 \<Longrightarrow> quiet list_item (sample_script k)"
  by (simp add: quiet_def sample_script_def push_item_def list_item_def)

subsection \<open>Digits and lowest terms\<close>

lemma unat_digit_char: "d < 10 \<Longrightarrow> unat (digit_char d) = 48 + d"
  unfolding digit_char_def by (subst unat_of_nat) simp

lemma is_digit_digit_char: "d < 10 \<Longrightarrow> is_digit (digit_char d)"
  by (simp add: is_digit_def word_le_nat_alt unat_digit_char)

lemma digit_val_digit_char: "d < 10 \<Longrightarrow> digit_val (digit_char d) = d"
  by (simp add: digit_val_def unat_digit_char)

lemma digits_all_digit: "list_all is_digit (digits n)"
proof (induction n rule: digits.induct)
  case (1 n)
  then show ?case
    by (subst digits.simps) (simp add: is_digit_digit_char)
qed

lemma digits_val_append:
  "digits_val (xs @ ys) = digits_val xs * 10 ^ length ys + digits_val ys"
proof (induction ys rule: rev_induct)
  case Nil
  then show ?case by (simp add: digits_val_def)
next
  case (snoc y ys)
  have "digits_val ((xs @ ys) @ [y]) = 10 * digits_val (xs @ ys) + digit_val y"
    by (simp add: digits_val_def)
  moreover have "digits_val (ys @ [y]) = 10 * digits_val ys + digit_val y"
    by (simp add: digits_val_def)
  ultimately show ?case using snoc by (simp add: algebra_simps)
qed

lemma digits_val_single: "digits_val [c] = digit_val c"
  by (simp add: digits_val_def)

lemma digits_val_digits: "digits_val (digits n) = n"
proof (induction n rule: digits.induct)
  case (1 n)
  show ?case
  proof (cases "n < 10")
    case True
    then show ?thesis
      by (subst digits.simps) (simp add: digits_val_single digit_val_digit_char)
  next
    case False
    with 1 have "digits_val (digits (n div 10)) = n div 10" by simp
    with False show ?thesis
      by (subst digits.simps) (simp add: digits_val_append digits_val_single digit_val_digit_char)
  qed
qed

lemma digits_val_zeros: "digits_val (replicate z 0x30) = 0"
proof (induction z)
  case 0
  then show ?case by (simp add: digits_val_def)
next
  case (Suc z)
  have "replicate (Suc z) (0x30 :: codeunit) = replicate z 0x30 @ [0x30]"
    by (simp add: replicate_append_same)
  with Suc show ?case
    by (simp only: digits_val_append digits_val_single) (simp add: digit_val_def)
qed

lemma hd_digits_nonzero: "0 < n \<Longrightarrow> hd (digits n) \<noteq> 0x30"
proof (induction n rule: digits.induct)
  case (1 n)
  show ?case
  proof (cases "n < 10")
    case True
    with 1(2) have "unat (digit_char n) \<noteq> unat (0x30 :: codeunit)"
      by (simp add: unat_digit_char)
    then have "digit_char n \<noteq> 0x30" by auto
    with True show ?thesis by (subst digits.simps) simp
  next
    case False
    then have "0 < n div 10" by simp
    with 1(1) False have "hd (digits (n div 10)) \<noteq> 0x30" by simp
    moreover have "digits (n div 10) \<noteq> []" by (rule digits_not_Nil)
    ultimately show ?thesis using False by (subst digits.simps) simp
  qed
qed

lemma dec_norm_canonical: "m \<noteq> 0 \<Longrightarrow> m mod 10 \<noteq> 0 \<Longrightarrow> dec_norm m e = Fin m e"
  by (subst dec_norm.simps) simp

lemma dec_norm_zero: "dec_norm 0 e = Fin 0 0"
  by (subst dec_norm.simps) simp

lemma dec_norm_shift: "m \<noteq> 0 \<Longrightarrow> dec_norm (m * 10 ^ k) e = dec_norm m (e + int k)"
proof (induction k arbitrary: e)
  case 0
  then show ?case by simp
next
  case (Suc k)
  have "dec_norm (m * 10 ^ Suc k) e = dec_norm (m * 10 ^ k) (e + 1)"
    using Suc.prems by (subst dec_norm.simps) simp
  with Suc show ?case by (simp add: algebra_simps)
qed

subsection \<open>Printing and reading a number\<close>

lemma delim_num_end: "delim rest \<Longrightarrow> num_end rest"
  by (auto simp: delim_def num_end_def is_digit_def)

lemma parse_frac_none: "X = [] \<or> hd X \<noteq> 0x2E \<Longrightarrow> parse_frac X = Some ([], X)"
  by (cases X) (auto simp: parse_frac_def)

lemma parse_frac_some:
  "fp \<noteq> [] \<Longrightarrow> list_all is_digit fp \<Longrightarrow> Y = [] \<or> \<not> is_digit (hd Y)
    \<Longrightarrow> parse_frac (0x2E # fp @ Y) = Some (fp, Y)"
  by (simp add: parse_frac_def takeWhile_all_then_stop dropWhile_all_then_stop)

lemma parse_exp_none: "Y = [] \<or> (hd Y \<noteq> 0x65 \<and> hd Y \<noteq> 0x45) \<Longrightarrow> parse_exp Y = Some (0, Y)"
  by (cases Y) (auto simp: parse_exp_def)

lemma parse_exp_plus:
  "eds \<noteq> [] \<Longrightarrow> list_all is_digit eds \<Longrightarrow> rest = [] \<or> \<not> is_digit (hd rest)
    \<Longrightarrow> parse_exp (0x65 # 0x2B # eds @ rest) = Some (int (digits_val eds), rest)"
  by (simp add: parse_exp_def parse_sign_def takeWhile_all_then_stop dropWhile_all_then_stop)

lemma parse_exp_minus:
  "eds \<noteq> [] \<Longrightarrow> list_all is_digit eds \<Longrightarrow> rest = [] \<or> \<not> is_digit (hd rest)
    \<Longrightarrow> parse_exp (0x65 # 0x2D # eds @ rest) = Some (- int (digits_val eds), rest)"
  by (simp add: parse_exp_def parse_sign_def takeWhile_all_then_stop dropWhile_all_then_stop)

lemma parse_number_general:
  assumes ip: "ip \<noteq> []" "list_all is_digit ip" "ip = [0x30] \<or> hd ip \<noteq> 0x30"
    and X: "X = [] \<or> \<not> is_digit (hd X)"
    and fr: "parse_frac X = Some (fp, Y)"
    and ex: "parse_exp Y = Some (ex, rest)"
  shows "parse_number ((if neg then [0x2D] else []) @ ip @ X) =
           Some (dec_norm ((if neg then - 1 else 1) * int (digits_val (ip @ fp)))
                   (ex - int (length fp)), rest)"
proof -
  from ip obtain d ip' where d: "ip = d # ip'" "is_digit d" "list_all is_digit ip'"
    by (cases ip) auto
  then have dm: "d \<noteq> 0x2D" by (auto simp: is_digit_def)
  have tk: "takeWhile is_digit (ip' @ X) = ip'"
    using takeWhile_all_then_stop [OF d(3) X] .
  have z: "d = 0x30 \<Longrightarrow> ip' = []"
    using ip(3) d(1) by auto
  show ?thesis
  proof (cases "d = 0x30")
    case True
    with z have "ip' = []" by simp
    with True d dm fr ex show ?thesis
      by (cases neg) (simp_all add: parse_number_def Let_def)
  next
    case False
    with d dm tk fr ex show ?thesis
      by (cases neg) (simp_all add: parse_number_def Let_def)
  qed
qed


lemma is_digit_zero: "is_digit 0x30"
  by (simp add: is_digit_def)

lemma zeros_digits: "list_all is_digit (replicate z 0x30)"
  by (induction z) (simp_all add: is_digit_zero)

lemma not_digit_dot: "\<not> is_digit 0x2E" and not_digit_e: "\<not> is_digit 0x65"
  by (simp_all add: is_digit_def)

lemma num_end_cases:
  assumes "num_end rest"
  shows "rest = [] \<or> \<not> is_digit (hd rest)" "rest = [] \<or> hd rest \<noteq> 0x2E"
    "rest = [] \<or> (hd rest \<noteq> 0x65 \<and> hd rest \<noteq> 0x45)"
  using assms by (auto simp: num_end_def)

lemma parse_number_finite_toString:
  assumes rest: "num_end rest"
  shows "parse_number (finite_toString m e @ rest) = Some (dec_norm m e, rest)"
proof -
  have pf0: "parse_frac rest = Some ([], rest)"
    using rest by (intro parse_frac_none) (rule num_end_cases)
  have pe0: "parse_exp rest = Some (0, rest)"
    using rest by (intro parse_exp_none) (rule num_end_cases)
  have nd0: "rest = [] \<or> \<not> is_digit (hd rest)"
    using rest by (rule num_end_cases)
  show ?thesis
  proof (cases "m = 0")
  case True
  have "parse_number ((if False then [0x2D] else []) @ [0x30] @ rest) =
      Some (dec_norm ((if False then - 1 else 1) * int (digits_val ([0x30] @ []))) (0 - int (length ([]::jstring))), rest)"
    by (rule parse_number_general)
       (use pf0 pe0 nd0 in \<open>simp_all add: is_digit_zero\<close>)
  with True show ?thesis
    by (simp add: finite_toString_def u16_def digits_val_single digit_val_def dec_norm_zero)
next
  case nz: False
  define s where "s = digits (nat \<bar>m\<bar>)"
  define k where "k = int (length s)"
  define n where "n = k + e"
  define neg where "neg = (m < 0)"
  have s_digits: "list_all is_digit s" and s_ne: "s \<noteq> []" and s_hd: "hd s \<noteq> 0x30"
    and s_val: "digits_val s = nat \<bar>m\<bar>"
    using nz by (simp_all add: s_def digits_all_digit digits_not_Nil hd_digits_nonzero digits_val_digits)
  have k_pos: "0 < k" using s_ne by (simp add: k_def)
  have sgn: "(if neg then - 1 else 1) * int (nat \<bar>m\<bar>) = m"
    by (simp add: neg_def)
  have pre: "(if m < 0 then u16 ''-'' else []) = (if neg then [0x2D] else [])"
    by (simp add: neg_def u16_def)
  have unfold: "finite_toString m e =
      (if neg then [0x2D] else []) @
        (if k \<le> n \<and> n \<le> 21 then s @ replicate (nat e) 0x30
         else if 0 < n \<and> n \<le> 21 then take (nat n) s @ [0x2E] @ drop (nat n) s
         else if - 6 < n \<and> n \<le> 0 then [0x30, 0x2E] @ replicate (nat (- n)) 0x30 @ s
         else (if k = 1 then s else take 1 s @ [0x2E] @ drop 1 s) @ [0x65] @
              (if n - 1 < 0 then [0x2D] else [0x2B]) @ digits (nat \<bar>n - 1\<bar>))"
    using nz by (simp add: finite_toString_def Let_def s_def k_def n_def pre) (simp add: u16_def)
  consider (plain) "k \<le> n" "n \<le> 21"
    | (point) "\<not> (k \<le> n \<and> n \<le> 21)" "0 < n" "n \<le> 21"
    | (small) "\<not> (k \<le> n \<and> n \<le> 21)" "\<not> (0 < n \<and> n \<le> 21)" "- 6 < n" "n \<le> 0"
    | (expo) "\<not> (k \<le> n \<and> n \<le> 21)" "\<not> (0 < n \<and> n \<le> 21)" "\<not> (- 6 < n \<and> n \<le> 0)"
    by blast
  then show ?thesis
  proof cases
    case plain
    then have e0: "0 \<le> e" by (simp add: n_def)
    let ?ip = "s @ replicate (nat e) 0x30"
    have "parse_number ((if neg then [0x2D] else []) @ ?ip @ rest) =
        Some (dec_norm ((if neg then - 1 else 1) * int (digits_val (?ip @ []))) (0 - int (length ([]::jstring))), rest)"
      by (rule parse_number_general)
         (use pf0 pe0 nd0 s_ne s_hd s_digits in \<open>simp_all add: zeros_digits\<close>)
    moreover have "(if neg then - 1 else 1) * int (digits_val (?ip @ [])) = m * 10 ^ nat e"
      using sgn by (simp add: digits_val_append digits_val_zeros s_val algebra_simps)
    moreover have "dec_norm (m * 10 ^ nat e) 0 = dec_norm m e"
      using nz e0 by (simp add: dec_norm_shift)
    ultimately show ?thesis using plain by (simp add: unfold)
  next
    case point
    then have lt: "nat n < length s" and pos: "0 < nat n"
      using k_pos by (auto simp: n_def k_def)
    let ?ip = "take (nat n) s" and ?fp = "drop (nat n) s"
    have ip: "?ip \<noteq> []" "list_all is_digit ?ip" "hd ?ip \<noteq> 0x30"
      using pos s_ne s_digits s_hd by (auto simp: list_all_iff dest: in_set_takeD)
    have fp: "?fp \<noteq> []" "list_all is_digit ?fp"
      using lt s_digits by (auto simp: list_all_iff dest: in_set_dropD)
    have pf: "parse_frac (0x2E # ?fp @ rest) = Some (?fp, rest)"
      using fp nd0 by (intro parse_frac_some)
    have "parse_number ((if neg then [0x2D] else []) @ ?ip @ (0x2E # ?fp @ rest)) =
        Some (dec_norm ((if neg then - 1 else 1) * int (digits_val (?ip @ ?fp))) (0 - int (length ?fp)), rest)"
      by (rule parse_number_general) (use pf pe0 ip in \<open>simp_all add: not_digit_dot\<close>)
    moreover have "0 - int (length ?fp) = e"
      using lt point(2) by (simp add: n_def k_def)
    ultimately show ?thesis using point sgn by (simp add: unfold s_val)
  next
    case small
    let ?z = "replicate (nat (- n)) (0x30 :: codeunit)"
    have fp: "?z @ s \<noteq> []" "list_all is_digit (?z @ s)"
      using s_ne s_digits by (simp_all add: zeros_digits)
    have pf: "parse_frac (0x2E # (?z @ s) @ rest) = Some (?z @ s, rest)"
      using fp nd0 by (intro parse_frac_some)
    have "parse_number ((if neg then [0x2D] else []) @ [0x30] @ (0x2E # (?z @ s) @ rest)) =
        Some (dec_norm ((if neg then - 1 else 1) * int (digits_val ([0x30] @ (?z @ s))))
               (0 - int (length (?z @ s))), rest)"
      by (rule parse_number_general) (use pf pe0 in \<open>simp_all add: not_digit_dot is_digit_zero\<close>)
    moreover have "digits_val ([0x30] @ (?z @ s)) = nat \<bar>m\<bar>"
      by (simp only: digits_val_append digits_val_zeros digits_val_single s_val)
         (simp add: digit_val_def)
    moreover have "0 - int (length (?z @ s)) = e"
      using small by (simp add: n_def k_def)
    ultimately show ?thesis using small sgn by (simp add: unfold)
  next
    case expo
    define x where "x = n - 1"
    let ?eds = "digits (nat \<bar>x\<bar>)"
    let ?et = "[0x65] @ (if x < 0 then [0x2D] else [0x2B]) @ ?eds"
    note nd = nd0
    have pe: "parse_exp (?et @ rest) = Some (x, rest)"
    proof (cases "x < 0")
      case True
      then show ?thesis
        using parse_exp_minus [OF digits_not_Nil digits_all_digit nd, of "nat \<bar>x\<bar>"]
        by (simp add: digits_val_digits)
    next
      case False
      then show ?thesis
        using parse_exp_plus [OF digits_not_Nil digits_all_digit nd, of "nat \<bar>x\<bar>"]
        by (simp add: digits_val_digits)
    qed
    have et_hd: "\<not> is_digit (hd (?et @ rest))" "hd (?et @ rest) \<noteq> 0x2E"
      by (simp_all add: not_digit_e)
    show ?thesis
    proof (cases "k = 1")
      case True
      have main: "parse_number ((if neg then [0x2D] else []) @ s @ (?et @ rest)) =
          Some (dec_norm ((if neg then - 1 else 1) * int (digits_val (s @ []))) (x - int (length ([]::jstring))), rest)"
        by (rule parse_number_general)
           (use s_ne s_hd s_digits et_hd pe in \<open>simp_all add: parse_frac_none\<close>)
      have xe: "x = e" using True by (simp add: x_def n_def)
      have shape: "finite_toString m e = (if neg then [0x2D] else []) @ s @ ?et"
        unfolding unfold x_def if_not_P [OF expo(1)] if_not_P [OF expo(2)] if_not_P [OF expo(3)]
          if_P [OF True]
        by (rule refl)
      have val: "dec_norm ((if neg then - 1 else 1) * int (digits_val (s @ []))) (x - int (length ([]::jstring))) =
          dec_norm m e"
        using sgn xe by (simp add: s_val)
      have "parse_number (finite_toString m e @ rest) =
          parse_number ((if neg then [0x2D] else []) @ s @ (?et @ rest))"
        by (simp only: shape append_assoc)
      also note main
      also note val
      finally show ?thesis .
    next
      case False
      then have lt: "1 < length s" using s_ne by (cases s) (auto simp: k_def)
      let ?ip = "take 1 s" and ?fp = "drop 1 s"
      have ip: "?ip \<noteq> []" "list_all is_digit ?ip" "hd ?ip \<noteq> 0x30"
        using s_ne s_digits s_hd by (auto simp: list_all_iff dest: in_set_takeD)
      have fp: "?fp \<noteq> []" "list_all is_digit ?fp"
        using lt s_digits by (auto simp: list_all_iff dest: in_set_dropD)
      have pf: "parse_frac (0x2E # ?fp @ (?et @ rest)) = Some (?fp, ?et @ rest)"
        using fp et_hd(1) by (intro parse_frac_some) simp_all
      have main: "parse_number ((if neg then [0x2D] else []) @ ?ip @ (0x2E # ?fp @ (?et @ rest))) =
          Some (dec_norm ((if neg then - 1 else 1) * int (digits_val (?ip @ ?fp))) (x - int (length ?fp)), rest)"
        by (rule parse_number_general) (use ip pf pe in \<open>simp_all add: not_digit_dot\<close>)
      have xe: "x - int (length ?fp) = e"
        using lt by (simp add: x_def n_def k_def)
      have shape: "finite_toString m e = (if neg then [0x2D] else []) @ ?ip @ [0x2E] @ ?fp @ ?et"
        unfolding unfold x_def if_not_P [OF expo(1)] if_not_P [OF expo(2)] if_not_P [OF expo(3)]
          if_not_P [OF False]
        by (simp only: append_assoc)
      have val: "dec_norm ((if neg then - 1 else 1) * int (digits_val (?ip @ ?fp))) (x - int (length ?fp)) =
          dec_norm m e"
        using sgn by (simp only: xe append_take_drop_id s_val)
      have "parse_number (finite_toString m e @ rest) =
          parse_number ((if neg then [0x2D] else []) @ ?ip @ (0x2E # ?fp @ (?et @ rest)))"
        by (simp only: shape append_assoc append_Cons append_Nil)
      also note main
      also note val
      finally show ?thesis .
    qed
  qed
  qed
qed

subsection \<open>Quoting and reading a string\<close>

lemma high_not_special:
  "is_high c \<Longrightarrow> \<not> c < 0x20 \<and> c \<noteq> 0x22 \<and> c \<noteq> 0x5C \<and> c \<noteq> 0x08 \<and> c \<noteq> 0x09 \<and> c \<noteq> 0x0A
     \<and> c \<noteq> 0x0C \<and> c \<noteq> 0x0D"
  by (auto simp: is_high_def word_le_nat_alt word_less_nat_alt)

lemma low_not_special:
  "is_low c \<Longrightarrow> \<not> c < 0x20 \<and> c \<noteq> 0x22 \<and> c \<noteq> 0x5C \<and> c \<noteq> 0x08 \<and> c \<noteq> 0x09 \<and> c \<noteq> 0x0A
     \<and> c \<noteq> 0x0C \<and> c \<noteq> 0x0D"
  by (auto simp: is_low_def word_le_nat_alt word_less_nat_alt)

lemma quote_units_pair:
  "is_high c \<Longrightarrow> is_low d \<Longrightarrow> quote_units (c # d # ds) = c # d # quote_units ds"
  using high_not_special [of c] by (simp del: quote_units.simps add: quote_units.simps(2) [of c])

lemma quote_units_lone_high:
  "is_high c \<Longrightarrow> cs = [] \<or> \<not> is_low (hd cs) \<Longrightarrow>
     quote_units (c # cs) = unicode_escape c @ quote_units cs"
  using high_not_special [of c]
  by (cases cs) (simp_all del: quote_units.simps add: quote_units.simps(2) [of c] quote_units.simps(1))

lemma quote_units_lone_low:
  "\<not> is_high c \<Longrightarrow> is_low c \<Longrightarrow> quote_units (c # cs) = unicode_escape c @ quote_units cs"
  using low_not_special [of c]
  by (simp del: quote_units.simps add: quote_units.simps(2) [of c])

lemma quote_units_ctrl:
  "c \<noteq> 0x08 \<Longrightarrow> c \<noteq> 0x09 \<Longrightarrow> c \<noteq> 0x0A \<Longrightarrow> c \<noteq> 0x0C \<Longrightarrow> c \<noteq> 0x0D \<Longrightarrow> c < 0x20 \<Longrightarrow>
     quote_units (c # cs) = unicode_escape c @ quote_units cs"
proof -
  assume a: "c \<noteq> 0x08" "c \<noteq> 0x09" "c \<noteq> 0x0A" "c \<noteq> 0x0C" "c \<noteq> 0x0D" "c < 0x20"
  then have "c \<noteq> 0x22" "c \<noteq> 0x5C" by auto
  with a show ?thesis
    by (simp del: quote_units.simps add: quote_units.simps(2) [of c])
qed

lemma quote_units_plain:
  "\<not> c < 0x20 \<Longrightarrow> c \<noteq> 0x22 \<Longrightarrow> c \<noteq> 0x5C \<Longrightarrow> \<not> is_high c \<Longrightarrow> \<not> is_low c \<Longrightarrow>
     quote_units (c # cs) = c # quote_units cs"
proof -
  assume a: "\<not> c < 0x20" "c \<noteq> 0x22" "c \<noteq> 0x5C" "\<not> is_high c" "\<not> is_low c"
  then have "c \<noteq> 0x08" "c \<noteq> 0x09" "c \<noteq> 0x0A" "c \<noteq> 0x0C" "c \<noteq> 0x0D" by auto
  with a show ?thesis
    by (simp del: quote_units.simps add: quote_units.simps(2) [of c])
qed

lemma quote_units_short:
  "quote_units (0x22 # cs) = [0x5C, 0x22] @ quote_units cs"
  "quote_units (0x5C # cs) = [0x5C, 0x5C] @ quote_units cs"
  "quote_units (0x08 # cs) = [0x5C, 0x62] @ quote_units cs"
  "quote_units (0x09 # cs) = [0x5C, 0x74] @ quote_units cs"
  "quote_units (0x0A # cs) = [0x5C, 0x6E] @ quote_units cs"
  "quote_units (0x0C # cs) = [0x5C, 0x66] @ quote_units cs"
  "quote_units (0x0D # cs) = [0x5C, 0x72] @ quote_units cs"
  by simp_all


lemma keep_Some: "keep c (Some (s, r)) = Some (c # s, r)"
  by (simp add: keep_def)

lemma hex_val_hex_digit: "d < 16 \<Longrightarrow> hex_val (hex_digit d) = Some d"
proof -
  assume d: "d < 16"
  have "unat (of_nat (48 + d) :: codeunit) = 48 + d" "unat (of_nat (87 + d) :: codeunit) = 87 + d"
    using d by (subst unat_of_nat, simp)+
  then have u: "unat (hex_digit d) = (if d < 10 then 48 + d else 87 + d)"
    by (cases "d < 10") (simp_all only: hex_digit_def if_True if_False)
  show ?thesis
    using d by (auto simp: hex_val_def word_le_nat_alt u)
qed

lemma hex_sum:
  "4096 * (n div 4096) + 256 * (n div 256 mod 16) + 16 * (n div 16 mod 16) + n mod 16 = (n::nat)"
proof -
  have a: "n mod 256 = 16 * (n div 16 mod 16) + n mod 16"
    using mod_mult2_eq [of n 16 16] by simp
  have b: "n mod 4096 = 256 * (n div 256 mod 16) + n mod 256"
    using mod_mult2_eq [of n 256 16] by simp
  have "n = 4096 * (n div 4096) + n mod 4096" by simp
  with a b show ?thesis by linarith
qed

lemma parse_chars_unicode_escape:
  "parse_chars (unicode_escape c @ t) = keep c (parse_chars t)"
proof -
  have "unat c < 2 ^ LENGTH(16)" by (rule unsigned_less)
  then have lt: "unat c < 65536" by simp
  then have b: "unat c div 4096 < 16" "unat c div 256 mod 16 < 16" "unat c div 16 mod 16 < 16"
    "unat c mod 16 < 16"
    by auto
  have "(of_nat (4096 * (unat c div 4096) + 256 * (unat c div 256 mod 16)
     + 16 * (unat c div 16 mod 16) + unat c mod 16) :: codeunit) = c"
    by (simp only: hex_sum) simp
  then show ?thesis
    using b by (simp add: unicode_escape_def hex_val_hex_digit keep_def)
qed

lemma parse_chars_plain:
  "\<not> c < 0x20 \<Longrightarrow> c \<noteq> 0x22 \<Longrightarrow> c \<noteq> 0x5C \<Longrightarrow> parse_chars (c # t) = keep c (parse_chars t)"
  by (simp add: keep_def)

lemma parse_chars_short:
  "parse_chars (0x5C # 0x22 # t) = keep 0x22 (parse_chars t)"
  "parse_chars (0x5C # 0x5C # t) = keep 0x5C (parse_chars t)"
  "parse_chars (0x5C # 0x62 # t) = keep 0x08 (parse_chars t)"
  "parse_chars (0x5C # 0x74 # t) = keep 0x09 (parse_chars t)"
  "parse_chars (0x5C # 0x6E # t) = keep 0x0A (parse_chars t)"
  "parse_chars (0x5C # 0x66 # t) = keep 0x0C (parse_chars t)"
  "parse_chars (0x5C # 0x72 # t) = keep 0x0D (parse_chars t)"
  by (simp_all add: keep_def unescape_def)

lemma surrogate_plain:
  "is_high c \<or> is_low c \<Longrightarrow> \<not> c < 0x20 \<and> c \<noteq> 0x22 \<and> c \<noteq> 0x5C"
  by (auto simp: is_high_def is_low_def word_le_nat_alt word_less_nat_alt)



lemma parse_chars_quote_units:
  "parse_chars (quote_units s @ 0x22 # rest) = Some (s, rest)"
proof (induction "length s" arbitrary: s rule: less_induct)
  case less
  show ?case
  proof (cases s)
    case Nil
    then show ?thesis by simp
  next
    case (Cons c cs)
    have ih: "parse_chars (quote_units cs @ 0x22 # rest) = Some (cs, rest)"
      using less [of cs] Cons by simp
    have step_escape: "parse_chars (quote_units (c # cs) @ 0x22 # rest) = Some (c # cs, rest)"
      if "quote_units (c # cs) = unicode_escape c @ quote_units cs"
      by (simp only: that append_assoc parse_chars_unicode_escape ih keep_Some)
    consider (short) "c = 0x22 \<or> c = 0x5C \<or> c = 0x08 \<or> c = 0x09 \<or> c = 0x0A \<or> c = 0x0C \<or> c = 0x0D"
      | (ctrl) "c \<noteq> 0x08" "c \<noteq> 0x09" "c \<noteq> 0x0A" "c \<noteq> 0x0C" "c \<noteq> 0x0D" "c < 0x20"
      | (pair) d ds where "is_high c" "cs = d # ds" "is_low d"
      | (lone_high) "is_high c" "cs = [] \<or> \<not> is_low (hd cs)"
      | (lone_low) "\<not> is_high c" "is_low c"
      | (plain) "\<not> c < 0x20" "c \<noteq> 0x22" "c \<noteq> 0x5C" "\<not> is_high c" "\<not> is_low c"
      by (cases cs) auto
    then have "parse_chars (quote_units (c # cs) @ 0x22 # rest) = Some (c # cs, rest)"
    proof cases
      case short
      then show ?thesis
        by (elim disjE)
           (simp_all only: quote_units_short append_Cons append_Nil parse_chars_short ih keep_Some)
    next
      case ctrl
      then show ?thesis by (intro step_escape quote_units_ctrl)
    next
      case pair
      have nc: "\<not> c < 0x20" "c \<noteq> 0x22" "c \<noteq> 0x5C"
        using high_not_special [OF pair(1)] by simp_all
      have nd: "\<not> d < 0x20" "d \<noteq> 0x22" "d \<noteq> 0x5C"
        using low_not_special [OF pair(3)] by simp_all
      have ih2: "parse_chars (quote_units ds @ 0x22 # rest) = Some (ds, rest)"
        using less [of ds] Cons pair(2) by simp
      show ?thesis
        unfolding pair(2)
        by (simp only: quote_units_pair [OF pair(1) pair(3)] append_Cons
            parse_chars_plain [OF nc] parse_chars_plain [OF nd] ih2 keep_Some)
    next
      case lone_high
      then show ?thesis by (intro step_escape quote_units_lone_high)
    next
      case lone_low
      then show ?thesis by (intro step_escape quote_units_lone_low)
    next
      case plain
      show ?thesis
        by (simp only: quote_units_plain [OF plain] append_Cons
            parse_chars_plain [OF plain(1-3)] ih keep_Some)
    qed
    then show ?thesis unfolding Cons .
  qed
qed

subsection \<open>Printing and reading a value\<close>

lemma json_safe_text: "json_safe v \<Longrightarrow> SerializeJSONProperty v = Some (json_text v)"
  by (cases v rule: SerializeJSONProperty.cases) (simp_all add: json_text_def)

lemma digit_not_ws: "is_digit c \<Longrightarrow> \<not> is_ws c"
  by (auto simp: is_digit_def is_ws_def)

lemma hd_digits_digit: "is_digit (hd (digits n))"
  using digits_all_digit [of n] digits_not_Nil [of n] by (cases "digits n") auto

lemma finite_toString_hd:
  "finite_toString m e \<noteq> [] \<and> (hd (finite_toString m e) = 0x2D \<or> is_digit (hd (finite_toString m e)))"
proof (cases "m = 0")
  case True
  then show ?thesis by (simp add: finite_toString_def u16_def is_digit_def)
next
  case nz: False
  show ?thesis
  proof (cases "m < 0")
    case True
    then show ?thesis by (simp add: finite_toString_def u16_def)
  next
    case False
    obtain d s' where ds: "digits (nat m) = d # s'" "is_digit d"
      using digits_not_Nil [of "nat m"] hd_digits_digit [of "nat m"]
      by (cases "digits (nat m)") auto
    have z: "is_digit 0x30" by (simp add: is_digit_def)
    show ?thesis
      using nz False ds z
      by (auto simp: finite_toString_def Let_def u16_def take_Cons')
  qed
qed

lemma parse_value_literal:
  "parse_value (u16 ''null'' @ rest) = Some (Null, rest)"
  "parse_value (u16 ''true'' @ rest) = Some (Bool True, rest)"
  "parse_value (u16 ''false'' @ rest) = Some (Bool False, rest)"
  by (subst parse_value.simps, simp add: u16_def is_ws_def is_digit_def parse_literal_def)+

lemma parse_value_string:
  "parse_value (QuoteJSONString s @ rest) = Some (Str s, rest)"
  by (subst parse_value.simps)
     (simp add: QuoteJSONString_def is_ws_def parse_chars_quote_units del: parse_chars.simps)

lemma parse_value_number:
  assumes "lowest_terms (Fin m e)" and "delim rest"
  shows "parse_value (stringify_num (Fin m e) @ rest) = Some (Num (Fin m e), rest)"
proof -
  have dn: "dec_norm m e = Fin m e"
    using assms(1) by (auto simp: lowest_terms_def dec_norm_zero dec_norm_canonical split: if_splits)
  then have st: "stringify_num (Fin m e) = finite_toString m e"
    by (simp add: Number_toString_def)
  obtain c t where ct: "finite_toString m e = c # t" "c = 0x2D \<or> is_digit c"
    using finite_toString_hd [of m e] by (cases "finite_toString m e") auto
  then have nws: "\<not> is_ws c" using digit_not_ws [of c] by (auto simp: is_ws_def)
  have sp: "c \<noteq> 0x7B" "c \<noteq> 0x5B" "c \<noteq> 0x22"
    using ct(2) by (auto simp: is_digit_def)
  have pn: "parse_number (c # t @ rest) = Some (Fin m e, rest)"
    using parse_number_finite_toString [OF delim_num_end [OF assms(2)], of m e] ct(1) dn by simp
  show ?thesis
    unfolding st ct(1)
    by (subst parse_value.simps) (use nws sp ct(2) pn in simp)
qed


lemma json_text_start:
  assumes "json_safe v"
  shows "\<exists>c t. json_text v = c # t \<and> \<not> is_ws c \<and> c \<noteq> 0x5D \<and> c \<noteq> 0x7D \<and> c \<noteq> 0x2C"
proof (cases v)
  case (Num n)
  with assms obtain m e where n: "n = Fin m e" "lowest_terms (Fin m e)"
    by (cases n) (auto simp: lowest_terms_def)
  then have dn: "dec_norm m e = Fin m e"
    by (auto simp: lowest_terms_def dec_norm_zero dec_norm_canonical split: if_splits)
  obtain c t where ct: "finite_toString m e = c # t" "c = 0x2D \<or> is_digit c"
    using finite_toString_hd [of m e] by (cases "finite_toString m e") auto
  from ct(2) have "\<not> is_ws c \<and> c \<noteq> 0x5D \<and> c \<noteq> 0x7D \<and> c \<noteq> 0x2C"
    by (auto simp: is_ws_def is_digit_def)
  with Num n dn ct(1) show ?thesis
    by (simp add: json_text_def Number_toString_def)
qed (use assms in \<open>simp_all add: json_text_def u16_def QuoteJSONString_def is_ws_def\<close>)

lemma json_text_not_Nil: "json_safe v \<Longrightarrow> json_text v \<noteq> []"
  using json_text_start [of v] by auto

lemma skip_ws_json_text: "json_safe v \<Longrightarrow> dropWhile is_ws (json_text v @ X) = json_text v @ X"
  using json_text_start [of v] by auto

lemma join_Cons: "ts \<noteq> [] \<Longrightarrow> join sep (t # ts) = t @ sep @ join sep ts"
  by (cases ts) simp_all

lemma delim_intros: "delim []" "delim (0x2C # X)" "delim (0x5D # X)" "delim (0x7D # X)"
  by (simp_all add: delim_def)

lemma parse_elems_last:
  assumes "json_safe v" and "parse_value (json_text v @ 0x5D # rest) = Some (v, 0x5D # rest)"
  shows "parse_elems (json_text v @ 0x5D # rest) = Some ([v], rest)"
  using assms json_text_not_Nil [of v]
  by (subst parse_elems.simps) (simp add: is_ws_def)

lemma parse_elems_more:
  assumes "json_safe v" and "parse_value (json_text v @ 0x2C # Z) = Some (v, 0x2C # Z)"
  shows "parse_elems (json_text v @ 0x2C # Z) =
           map_option (\<lambda>(vs, rest). (v # vs, rest)) (parse_elems Z)"
  using assms json_text_not_Nil [of v]
  by (subst parse_elems.simps) (simp add: is_ws_def)

lemma parse_elems_join:
  assumes "vs \<noteq> []"
    and "\<And>v Y. v \<in> set vs \<Longrightarrow> delim Y \<Longrightarrow> parse_value (json_text v @ Y) = Some (v, Y)"
    and "\<And>v. v \<in> set vs \<Longrightarrow> json_safe v"
  shows "parse_elems (join [0x2C] (map json_text vs) @ 0x5D # rest) = Some (vs, rest)"
  using assms
proof (induction vs)
  case Nil
  then show ?case by simp
next
  case (Cons v vs)
  have sv: "json_safe v" using Cons.prems(3) by simp
  show ?case
  proof (cases "vs = []")
    case True
    have "parse_value (json_text v @ 0x5D # rest) = Some (v, 0x5D # rest)"
      using Cons.prems(2) [of v "0x5D # rest"] by (simp add: delim_intros)
    from parse_elems_last [OF sv this] True show ?thesis by simp
  next
    case False
    let ?Z = "join [0x2C] (map json_text vs) @ 0x5D # rest"
    have "parse_value (json_text v @ 0x2C # ?Z) = Some (v, 0x2C # ?Z)"
      using Cons.prems(2) [of v "0x2C # ?Z"] by (simp add: delim_intros)
    from parse_elems_more [OF sv this]
    have "parse_elems (json_text v @ 0x2C # ?Z) =
        map_option (\<lambda>(vs, rest). (v # vs, rest)) (parse_elems ?Z)" .
    moreover have "parse_elems ?Z = Some (vs, rest)"
      using Cons.IH [OF False] Cons.prems(2,3) by simp
    ultimately show ?thesis using False by (simp add: join_Cons)
  qed
qed


lemma parse_members_head:
  assumes "json_safe v"
    and "parse_value (json_text v @ Y) = Some (v, Y)"
  shows "parse_members (member_text (k, v) @ Y) =
     (case dropWhile is_ws Y of
        [] \<Rightarrow> None
      | d # r4 \<Rightarrow>
          if d = 0x7D then Some ([(k, v)], r4)
          else if d = 0x2C then map_option (\<lambda>(ms, rest). ((k, v) # ms, rest)) (parse_members r4)
          else None)"
proof -
  have pc: "parse_chars (quote_units k @ 0x22 # 0x3A # json_text v @ Y) =
      Some (k, 0x3A # json_text v @ Y)"
    by (rule parse_chars_quote_units)
  have len: "length Y < length (member_text (k, v) @ Y)"
    by (simp add: member_text_def QuoteJSONString_def)
  have shape: "member_text (k, v) @ Y = 0x22 # quote_units k @ 0x22 # 0x3A # json_text v @ Y"
    by (simp add: member_text_def QuoteJSONString_def)
  show ?thesis
    by (subst parse_members.simps)
       (simp add: shape is_ws_def pc assms(2) del: parse_chars.simps)
qed

lemma parse_value_bracket:
  "\<not> is_ws c \<Longrightarrow> c \<noteq> 0x5D \<Longrightarrow>
     parse_value (0x5B # c # t) = map_option (\<lambda>(vs, rest). (Arr vs, rest)) (parse_elems (c # t))"
  by (subst parse_value.simps) (simp add: is_ws_def)

lemma parse_value_brace:
  "parse_value (0x7B # 0x22 # t) =
     map_option (\<lambda>(ms, rest). (Obj (make_object ms), rest)) (parse_members (0x22 # t))"
  by (subst parse_value.simps) (simp add: is_ws_def)

lemma parse_members_join:
  assumes "kvs \<noteq> []"
    and "\<And>kv Y. kv \<in> set kvs \<Longrightarrow> delim Y \<Longrightarrow>
           parse_value (json_text (snd kv) @ Y) = Some (snd kv, Y)"
    and "\<And>kv. kv \<in> set kvs \<Longrightarrow> json_safe (snd kv)"
  shows "parse_members (join [0x2C] (map member_text kvs) @ 0x7D # rest) = Some (kvs, rest)"
  using assms
proof (induction kvs)
  case Nil
  then show ?case by simp
next
  case (Cons kv kvs)
  obtain k v where kv: "kv = (k, v)" by (cases kv)
  have sv: "json_safe v" using Cons.prems(3) [of kv] kv by simp
  show ?case
  proof (cases "kvs = []")
    case True
    have "parse_value (json_text v @ 0x7D # rest) = Some (v, 0x7D # rest)"
      using Cons.prems(2) [of kv "0x7D # rest"] kv by (simp add: delim_intros)
    from parse_members_head [OF sv this, of k] True kv show ?thesis
      by (simp add: is_ws_def)
  next
    case False
    let ?Z = "join [0x2C] (map member_text kvs) @ 0x7D # rest"
    have "parse_value (json_text v @ 0x2C # ?Z) = Some (v, 0x2C # ?Z)"
      using Cons.prems(2) [of kv "0x2C # ?Z"] kv by (simp add: delim_intros)
    from parse_members_head [OF sv this, of k]
    have "parse_members (member_text (k, v) @ 0x2C # ?Z) =
        map_option (\<lambda>(ms, rest). ((k, v) # ms, rest)) (parse_members ?Z)"
      by (simp add: is_ws_def)
    moreover have "parse_members ?Z = Some (kvs, rest)"
      using Cons.IH [OF False] Cons.prems(2,3) by simp
    ultimately show ?thesis using False kv by (simp add: join_Cons)
  qed
qed

lemma make_object_step:
  "distinct (map fst (acc @ ms)) \<Longrightarrow>
     foldl (\<lambda>ps kv. AList.update (fst kv) (snd kv) ps) acc ms = acc @ ms"
proof (induction ms arbitrary: acc)
  case Nil
  then show ?case by simp
next
  case (Cons kv ms)
  then have "fst kv \<notin> fst ` set acc" by auto
  then have "AList.update (fst kv) (snd kv) acc = acc @ [kv]"
    by (induction acc) auto
  moreover have "distinct (map fst ((acc @ [kv]) @ ms))" using Cons.prems by simp
  ultimately show ?case using Cons.IH [of "acc @ [kv]"] by simp
qed

lemma make_object_distinct: "distinct (map fst ms) \<Longrightarrow> make_object ms = ms"
  using make_object_step [of "[]" ms] by (simp add: make_object_def)

lemma json_text_Arr:
  "json_text (Arr vs) = 0x5B # join [0x2C] (map json_text vs) @ [0x5D]"
  by (simp add: json_text_def u16_def cong: map_cong)

lemma json_text_Obj:
  assumes "\<And>kv. kv \<in> set kvs \<Longrightarrow> json_safe (snd kv)"
  shows "json_text (Obj kvs) = 0x7B # join [0x2C] (map member_text kvs) @ [0x7D]"
proof -
  have "concat (map (\<lambda>kv. case SerializeJSONProperty (snd kv) of
                                   None \<Rightarrow> []
                                 | Some t \<Rightarrow> [QuoteJSONString (fst kv) @ u16 '':'' @ t]) kvs)
      = map member_text kvs"
    using assms
  proof (induction kvs)
    case Nil
    then show ?case by simp
  next
    case (Cons kv kvs)
    then have "SerializeJSONProperty (snd kv) = Some (json_text (snd kv))"
      by (simp add: json_safe_text)
    with Cons show ?case by (simp add: member_text_def u16_def)
  qed
  then show ?thesis by (simp add: json_text_def u16_def)
qed

lemma parse_value_json_text:
  "json_safe v \<Longrightarrow> delim rest \<Longrightarrow> parse_value (json_text v @ rest) = Some (v, rest)"
proof (induction v arbitrary: rest)
  case Null
  then show ?case by (simp add: json_text_def parse_value_literal)
next
  case (Bool b)
  then show ?case by (cases b) (simp_all add: json_text_def parse_value_literal)
next
  case (Num n)
  then obtain m e where n: "n = Fin m e" "lowest_terms (Fin m e)"
    by (cases n) (auto simp: lowest_terms_def)
  with Num(2) show ?case
    using parse_value_number [of m e rest] by (simp add: json_text_def)
next
  case (Str s)
  then show ?case by (simp add: json_text_def parse_value_string)
next
  case (Arr vs)
  have safe: "\<And>v. v \<in> set vs \<Longrightarrow> json_safe v"
    using Arr.prems(1) by (simp add: list_all_iff)
  show ?case
  proof (cases "vs = []")
    case True
    then show ?thesis
      by (subst parse_value.simps) (simp add: json_text_Arr is_ws_def)
  next
    case False
    let ?r = "join [0x2C] (map json_text vs) @ 0x5D # rest"
    have el: "parse_elems ?r = Some (vs, rest)"
      using parse_elems_join [OF False, of rest] Arr.IH safe by blast
    obtain v vs' where vs: "vs = v # vs'" using False by (cases vs) auto
    obtain c t where ct: "json_text v = c # t" "\<not> is_ws c" "c \<noteq> 0x5D"
      using json_text_start [of v] safe [of v] vs by auto
    have "\<exists>t'. ?r = c # t'"
      using vs ct(1) by (cases vs') simp_all
    then obtain t' where r: "?r = c # t'" ..
    have "parse_value (0x5B # c # t') = Some (Arr vs, rest)"
      using parse_value_bracket [OF ct(2,3), of t'] el [unfolded r] by simp
    then have "parse_value (0x5B # ?r) = Some (Arr vs, rest)"
      by (simp only: r)
    then show ?thesis by (simp add: json_text_Arr)
  qed
next
  case (Obj kvs)
  have safe: "\<And>kv. kv \<in> set kvs \<Longrightarrow> json_safe (snd kv)"
    and dist: "distinct (map fst kvs)"
    using Obj.prems(1) by (simp_all add: list_all_iff)
  have ih: "\<And>kv Y. kv \<in> set kvs \<Longrightarrow> delim Y \<Longrightarrow>
      parse_value (json_text (snd kv) @ Y) = Some (snd kv, Y)"
    using Obj.IH safe by (metis snds.intros)
  show ?case
  proof (cases "kvs = []")
    case True
    then show ?thesis
      by (subst parse_value.simps) (simp add: json_text_def u16_def is_ws_def)
  next
    case False
    let ?r = "join [0x2C] (map member_text kvs) @ 0x7D # rest"
    have mem: "parse_members ?r = Some (kvs, rest)"
      using parse_members_join [OF False ih safe, of rest] by blast
    obtain kv kvs' where kvs: "kvs = kv # kvs'" using False by (cases kvs) auto
    have "\<exists>t'. ?r = 0x22 # t'"
      using kvs by (cases kvs') (simp_all add: member_text_def QuoteJSONString_def)
    then obtain t' where r: "?r = 0x22 # t'" ..
    have "parse_value (0x7B # 0x22 # t') = Some (Obj kvs, rest)"
      using parse_value_brace [of t'] mem [unfolded r] make_object_distinct [OF dist] by simp
    then have "parse_value (0x7B # ?r) = Some (Obj kvs, rest)"
      by (simp only: r)
    then show ?thesis by (simp add: json_text_Obj [OF safe])
  qed
qed simp_all

lemma JSON_parse_json_text: "json_safe v \<Longrightarrow> JSON_parse (json_text v) = Inr v"
  using parse_value_json_text [of v "[]"] by (simp add: JSON_parse_def delim_def)

section \<open>The claims\<close>

text \<open>
  C7. \<open>serialize\<close> is idempotent on byte sequences: a value that is already a
  \<open>Buffer\<close> is returned unchanged (line 23), whatever its bytes are.
\<close>

theorem serialize_buffer_unchanged: "serialize (Buffer bs) = Inr bs"
  by (simp add: serialize_def instanceof_Buffer_def)

theorem serialize_buffer_unchanged_witness: "serialize (Buffer [104, 105]) = Inr [104, 105]"
  using serialize_buffer_unchanged [of "[104, 105]"] by simp

text \<open>
  C8. Both deserializer entry points return \<open>null\<close> for a \<open>null\<close> input and for an
  input whose decoded text is empty, and \<open>bufferToObject\<close> also for an absent input
  (line 40 tests \<open>buffer == null\<close>). \<open>uInt8ArrayToObject\<close> tests \<open>payload === null\<close>
  (line 63), which \<open>undefined\<close> does not satisfy: line 67 then calls \<open>toString\<close> on
  \<open>undefined\<close> and a \<open>TypeError\<close> is raised where the claim says \<open>null\<close>. The theorem
  evaluates both functions at these inputs; its last conjunct is the divergence.
\<close>

theorem uInt8ArrayToObject_absent_raises:
  "bufferToObject Absent lg = (Inr Null, lg) \<and>
   bufferToObject IsNull lg = (Inr Null, lg) \<and>
   bufferToObject (Given []) lg = (Inr Null, lg) \<and>
   uInt8ArrayToObject IsNull lg = (Inr Null, lg) \<and>
   uInt8ArrayToObject (Given (NodeBuffer [])) lg = (Inr Null, lg) \<and>
   uInt8ArrayToObject (Given (TypedArray [])) lg = (Inr Null, lg) \<and>
   uInt8ArrayToObject Absent lg = (Inl TypeError, lg)"
  by (simp add: bufferToObject_Given uInt8ArrayToObject_Given payload_toString_eq_Nil)
     (simp add: bufferToObject_def uInt8ArrayToObject_def)

text \<open>
  C4. The two entry points on the same two bytes, \<open>{}\<close>: \<open>bufferToObject\<close> on the
  \<open>Buffer\<close> parses the empty object; \<open>uInt8ArrayToObject\<close> on the plain typed array
  reads the text \<open>123,125\<close> (\<open>toString\<close> of a typed array joins the decimal bytes),
  which is not JSON, so it logs an error and returns that text.
\<close>

theorem entry_points_differ_on_typed_array:
  "bufferToObject (Given [123, 125]) [] = (Inr (Obj []), []) \<and>
   uInt8ArrayToObject (Given (TypedArray [123, 125])) [] =
     (Inr (Str (u16 ''123,125'')),
      [(u16 ''Error parsing Uint8Array to JSON'', u16 ''123,125'')])"
  by code_simp

text \<open>
  C3, as stated, at the empty input: the decoded text is empty, which is not valid JSON,
  yet both entry points return \<open>null\<close> (lines 50-52 and 73-75), not the raw text, and
  log nothing.
\<close>

theorem deserialize_empty_text_counterexample:
  "JSON_parse (utf8_decode []) = Inl SyntaxError \<and>
   bufferToObject (Given []) [] = (Inr Null, []) \<and>
   uInt8ArrayToObject (Given (NodeBuffer [])) [] = (Inr Null, [])"
  by code_simp

text \<open>
  C3, amended: for every \<open>Buffer\<close> whose decoded text (its bytes read as UTF-8) is not
  empty, given to \<open>bufferToObject\<close> or to \<open>uInt8ArrayToObject\<close>, the deserializer does
  not raise; when the text is not valid JSON the result is the raw decoded text and the
  log grows by exactly one \<open>logger.error\<close> call; when it is valid JSON the result is the
  parsed value and the log is unchanged. (What \<open>uInt8ArrayToObject\<close> does with a plain
  typed array, whose \<open>toString()\<close> is not its decoded text, is the subject of C4 and is
  not stated here.)
\<close>

theorem deserialize_parse_or_raw:
  assumes "utf8_decode bs \<noteq> []"
  shows "(\<forall>err. JSON_parse (utf8_decode bs) = Inl err \<longrightarrow>
            bufferToObject (Given bs) lg =
              (Inr (Str (utf8_decode bs)),
               lg @ [(u16 ''Error parsing buffer to JSON'', utf8_decode bs)]))
       \<and> (\<forall>parsed. JSON_parse (utf8_decode bs) = Inr parsed \<longrightarrow>
            bufferToObject (Given bs) lg = (Inr parsed, lg))
       \<and> (\<forall>err. JSON_parse (utf8_decode bs) = Inl err \<longrightarrow>
            uInt8ArrayToObject (Given (NodeBuffer bs)) lg =
              (Inr (Str (utf8_decode bs)),
               lg @ [(u16 ''Error parsing Uint8Array to JSON'', utf8_decode bs)]))
       \<and> (\<forall>parsed. JSON_parse (utf8_decode bs) = Inr parsed \<longrightarrow>
            uInt8ArrayToObject (Given (NodeBuffer bs)) lg = (Inr parsed, lg))"
  using assms
  by (simp add: bufferToObject_Given uInt8ArrayToObject_Given utf8_decode_eq_Nil
      payload_toString_def)

theorem deserialize_parse_or_raw_witness:
  "bufferToObject (Given (Buffer_from (u16 ''not json''))) [] =
     (Inr (Str (u16 ''not json'')), [(u16 ''Error parsing buffer to JSON'', u16 ''not json'')])
   \<and> bufferToObject (Given (Buffer_from (u16 ''{\"a\":1}''))) [] =
     (Inr (Obj [(u16 ''a'', Num (num_of_int 1))]), [])
   \<and> uInt8ArrayToObject (Given (NodeBuffer (Buffer_from (u16 ''not json'')))) [] =
     (Inr (Str (u16 ''not json'')), [(u16 ''Error parsing Uint8Array to JSON'', u16 ''not json'')])
   \<and> uInt8ArrayToObject (Given (NodeBuffer (Buffer_from (u16 ''{\"a\":1}'')))) [] =
     (Inr (Obj [(u16 ''a'', Num (num_of_int 1))]), [])"
proof -
  have d1: "utf8_decode (Buffer_from (u16 ''not json'')) = u16 ''not json''" by code_simp
  have d2: "utf8_decode (Buffer_from (u16 ''{\"a\":1}'')) = u16 ''{\"a\":1}''" by code_simp
  have p1: "JSON_parse (u16 ''not json'') = Inl SyntaxError" by code_simp
  have p2: "JSON_parse (u16 ''{\"a\":1}'') = Inr (Obj [(u16 ''a'', Num (num_of_int 1))])" by code_simp
  have n1: "u16 ''not json'' \<noteq> []" by (simp add: u16_def)
  have n2: "u16 ''{\"a\":1}'' \<noteq> []" by (simp add: u16_def)
  show ?thesis
    using deserialize_parse_or_raw [of "Buffer_from (u16 ''not json'')" "[]"]
          deserialize_parse_or_raw [of "Buffer_from (u16 ''{\"a\":1}'')" "[]"]
    by (simp add: d1 d2 p1 p2 n1 n2)
qed

text \<open>
  C5, as stated, at \<open>undefined\<close>: \<open>JSON.stringify(undefined)\<close> is \<open>undefined\<close>, and
  \<open>Buffer.from(undefined)\<close> raises a \<open>TypeError\<close> (line 28).
\<close>

theorem serialize_undefined_counterexample: "serialize Undefined = Inl TypeError"
  by (simp add: serialize_def instanceof_Buffer_def isDate_def isString_def normalizePayload_primitive
      JSON_stringify_def)

text \<open>
  C5, amended: \<open>serialize\<close> returns a byte sequence, and raises nothing, for every
  value except \<open>undefined\<close>, a symbol, and a value that holds a BigInt (itself, or
  inside its arrays and objects); on each of these it raises a \<open>TypeError\<close>: for
  \<open>undefined\<close> and for a symbol \<open>JSON.stringify\<close> gives \<open>undefined\<close> and \<open>Buffer.from\<close>
  raises, for a BigInt \<open>JSON.stringify\<close> raises. It is a function of its argument
  alone: it neither reads nor writes the logger. (The values are the finite ones; a
  structure that contains itself is not among them.)
\<close>

theorem serialize_raises_exactly:
  "(v = Undefined \<or> isSymbol v \<or> holds_BigInt v \<longrightarrow> serialize v = Inl TypeError)
   \<and> (v \<noteq> Undefined \<and> \<not> isSymbol v \<and> \<not> holds_BigInt v \<longrightarrow> (\<exists>bs. serialize v = Inr bs))"
proof (intro conjI impI)
  assume bad: "v = Undefined \<or> isSymbol v \<or> holds_BigInt v"
  then have nb: "\<not> instanceof_Buffer v" "\<not> (isDate v \<or> isString v)"
    by (cases v; simp add: instanceof_Buffer_def isDate_def isString_def isSymbol_def)+
  show "serialize v = Inl TypeError"
  proof (cases "holds_BigInt v")
    case True
    then show ?thesis
      using nb by (simp add: serialize_def JSON_stringify_def holds_BigInt_normalizePayload)
  next
    case False
    with bad have "SerializeJSONProperty (normalizePayload v) = None"
      by (auto simp: SerializeJSONProperty_None_iff normalizePayload_Symbol_iff
          normalizePayload_primitive)
    with False nb show ?thesis
      by (simp add: serialize_def JSON_stringify_def holds_BigInt_normalizePayload)
  qed
next
  assume good: "v \<noteq> Undefined \<and> \<not> isSymbol v \<and> \<not> holds_BigInt v"
  show "\<exists>bs. serialize v = Inr bs"
  proof (cases "instanceof_Buffer v")
    case True
    then show ?thesis by (simp add: serialize_def)
  next
    case nb: False
    show ?thesis
    proof (cases "isDate v \<or> isString v")
      case True
      with normalizePayload_date_or_string [of v] nb show ?thesis
        by (auto simp: serialize_def)
    next
      case False
      from good have "\<not> holds_BigInt (normalizePayload v)"
        by (simp add: holds_BigInt_normalizePayload)
      moreover from good have "normalizePayload v \<noteq> Undefined" "\<not> isSymbol (normalizePayload v)"
        by (simp_all add: normalizePayload_Undefined_iff normalizePayload_Symbol_iff)
      moreover from calculation have "\<And>n. normalizePayload v \<noteq> BigInt n"
        by auto
      ultimately have "SerializeJSONProperty (normalizePayload v) \<noteq> None"
        "\<not> holds_BigInt (normalizePayload v)"
        by (simp_all add: SerializeJSONProperty_None_iff)
      with nb False show ?thesis by (auto simp: serialize_def JSON_stringify_def)
    qed
  qed
qed

theorem serialize_raises_exactly_witness:
  "(\<exists>bs. serialize (Obj [(u16 ''a'', Arr [Undefined, Symbol (u16 ''s''), Date None, Num NaN])]) = Inr bs)
   \<and> serialize (Symbol (u16 ''s'')) = Inl TypeError
   \<and> serialize (Obj [(u16 ''a'', Arr [BigInt 1])]) = Inl TypeError"
  using
    serialize_raises_exactly [of "Obj [(u16 ''a'', Arr [Undefined, Symbol (u16 ''s''), Date None, Num NaN])]"]
    serialize_raises_exactly [of "Symbol (u16 ''s'')"]
    serialize_raises_exactly [of "Obj [(u16 ''a'', Arr [BigInt 1])]"]
  by (simp add: isSymbol_def)

text \<open>
  C6, as stated, at a one-byte \<open>Buffer\<close>: it is neither a date, a string nor an
  array, but \<open>_.isObject\<close> holds of it, so line 240 maps over its indexes and returns
  a plain object. The reference definition returns it unchanged; read as an array-like
  sequence it would become a sequence. The code does neither.
\<close>

theorem normalizePayload_buffer_counterexample:
  "normalizePayload (Buffer [1]) = Obj [(u16 ''0'', Num (num_of_int 1))] \<and>
   normalizePayload (Buffer [1]) \<noteq> normalize_claimed (Buffer [1]) \<and>
   normalizePayload (Buffer [1]) \<noteq> Arr [Num (num_of_int 1)]"
  by code_simp

text \<open>
  C6, amended: \<open>normalizePayload\<close> equals the reference definition with one more
  case, on every input: a date maps to the number of its time value, a string to itself,
  an array to the array of its normalized elements, a plain object to the object with
  the same keys and normalized values, a byte container (\<open>Buffer\<close>, \<open>Uint8Array\<close>) to
  the object from its indexes to its bytes, and \<open>undefined\<close>, \<open>null\<close>, booleans and
  numbers to themselves. The date test comes first in the code (line 231), and a date
  also satisfies \<open>_.isObject\<close>.
\<close>

theorem normalizePayload_refines:
  "normalizePayload v = normalize_ref v"
proof (induction v)
  case (Arr vs)
  then show ?case by (simp add: normalizePayload_Arr)
next
  case (Obj kvs)
  then have "\<And>kv. kv \<in> set kvs \<Longrightarrow> normalizePayload (snd kv) = normalize_ref (snd kv)"
    by (metis snds.intros)
  then show ?case by (simp add: normalizePayload_Obj mapValues_def case_prod_beta)
qed (simp_all add: normalizePayload_cases normalizePayload_bytes)

theorem normalizePayload_refines_witness:
  "normalizePayload (Arr [Date (Some 5), Obj [(u16 ''k'', Buffer [7])]]) =
     Arr [Num (num_of_int 5), Obj [(u16 ''k'', Obj [(u16 ''0'', Num (num_of_int 7))])]]"
proof -
  have "normalize_ref (Arr [Date (Some 5), Obj [(u16 ''k'', Buffer [7])]]) =
     Arr [Num (num_of_int 5), Obj [(u16 ''k'', Obj [(u16 ''0'', Num (num_of_int 7))])]]"
    by code_simp
  with normalizePayload_refines [of "Arr [Date (Some 5), Obj [(u16 ''k'', Buffer [7])]]"]
  show ?thesis by simp
qed

text \<open>
  C9, as stated, at the text \<open>abc123\<close>: it has a run of digits, \<open>123\<close>, so the claim
  promises the date of 123 ms. Line 105 finds the digits, but line 107 hands the whole
  text to \<open>parseInt\<close>, which reads an integer only at the start of a text: the
  result is \<open>NaN\<close> and the date is invalid.
\<close>

theorem bufferToDate_inner_digits_counterexample:
  "utf8_decode (Buffer_from (u16 ''abc123'')) = u16 ''abc123'' \<and>
   first_digit_run (u16 ''abc123'') = u16 ''123'' \<and>
   new_Date (Some (int (digits_val (first_digit_run (u16 ''abc123''))))) = Date (Some 123) \<and>
   bufferToDate (Given (Buffer_from (u16 ''abc123''))) = Date None"
  by code_simp

text \<open>
  C9, amended: \<open>bufferToDate\<close> returns \<open>undefined\<close> for a \<open>null\<close>, absent or empty
  input and for a text without any digit. For a text that is, in this order, white
  space (possibly none), an optional sign, a run of digits \<open>ds\<close>, and a rest that does
  not go on with a digit, it returns \<open>new Date\<close> of the signed value of \<open>ds\<close> (an
  invalid date beyond 8.64e15 ms either way). So the bytes of \<open>1609459200000\<close> give
  the date of that millisecond.
\<close>

theorem bufferToDate_cases:
  "bufferToDate Absent = Undefined \<and> bufferToDate IsNull = Undefined
   \<and> bufferToDate (Given []) = Undefined
   \<and> (\<not> list_ex is_digit (utf8_decode bs) \<longrightarrow> bufferToDate (Given bs) = Undefined)
   \<and> (utf8_decode bs = ws @ sg @ ds @ rest \<and> list_all is_StrWhiteSpaceChar ws
        \<and> (sg = [] \<or> sg = [0x2D] \<or> sg = [0x2B]) \<and> ds \<noteq> [] \<and> list_all is_digit ds
        \<and> (rest = [] \<or> \<not> is_digit (hd rest))
      \<longrightarrow> bufferToDate (Given bs) =
            new_Date (Some ((if sg = [0x2D] then - 1 else 1) * int (digits_val ds))))"
proof (intro conjI impI)
  show "bufferToDate Absent = Undefined" "bufferToDate IsNull = Undefined"
    "bufferToDate (Given []) = Undefined"
    by (simp_all add: bufferToDate_def)
next
  assume "\<not> list_ex is_digit (utf8_decode bs)"
  then show "bufferToDate (Given bs) = Undefined"
    by (simp add: bufferToDate_def regex_digits_test_def Let_def)
next
  assume h: "utf8_decode bs = ws @ sg @ ds @ rest \<and> list_all is_StrWhiteSpaceChar ws
        \<and> (sg = [] \<or> sg = [0x2D] \<or> sg = [0x2B]) \<and> ds \<noteq> [] \<and> list_all is_digit ds
        \<and> (rest = [] \<or> \<not> is_digit (hd rest))"
  then have p: "parseInt10 (utf8_decode bs) =
      Some ((if sg = [0x2D] then - 1 else 1) * int (digits_val ds))"
    using parseInt10_shape [of ws sg ds rest] by simp
  from h obtain d where "d \<in> set ds" "is_digit d"
    by (cases ds) auto
  with h have "list_ex is_digit (utf8_decode bs)"
    by (auto simp: list_ex_iff)
  moreover from h have "utf8_decode bs \<noteq> []" by auto
  ultimately show "bufferToDate (Given bs) =
      new_Date (Some ((if sg = [0x2D] then - 1 else 1) * int (digits_val ds)))"
    using p by (simp add: bufferToDate_def regex_digits_test_def Let_def)
qed

theorem bufferToDate_cases_witness:
  "bufferToDate (Given (Buffer_from (u16 ''1609459200000''))) = Date (Some 1609459200000)
   \<and> bufferToDate (Given (Buffer_from (u16 ''abc''))) = Undefined
   \<and> bufferToDate (Given (Buffer_from (u16 '' -12x''))) = Date (Some (- 12))"
proof -
  have e: "list_all is_StrWhiteSpaceChar []" by simp
  have d1: "utf8_decode (Buffer_from (u16 ''1609459200000'')) = [] @ [] @ u16 ''1609459200000'' @ []"
    by code_simp
  have v1: "new_Date (Some ((if ([]::jstring) = [0x2D] then - 1 else 1)
      * int (digits_val (u16 ''1609459200000'')))) = Date (Some 1609459200000)"
    by (simp add: new_Date_def digits_val_def u16_def digit_val_def)
  have a1: "list_all is_digit (u16 ''1609459200000'')" "u16 ''1609459200000'' \<noteq> []"
    by (simp_all add: u16_def is_digit_def)
  have w1: "bufferToDate (Given (Buffer_from (u16 ''1609459200000''))) =
      new_Date (Some ((if ([]::jstring) = [0x2D] then - 1 else 1)
        * int (digits_val (u16 ''1609459200000''))))"
    using bufferToDate_cases [of "Buffer_from (u16 ''1609459200000'')" "[]" "[]"
            "u16 ''1609459200000''" "[]"] e d1 a1
    by blast
  have d2: "\<not> list_ex is_digit (utf8_decode (Buffer_from (u16 ''abc'')))"
    by code_simp
  have w2: "bufferToDate (Given (Buffer_from (u16 ''abc''))) = Undefined"
    using bufferToDate_cases [of "Buffer_from (u16 ''abc'')" "[]" "[]" "[]" "[]"] d2
    by blast
  have d3: "utf8_decode (Buffer_from (u16 '' -12x'')) = u16 '' '' @ [0x2D] @ u16 ''12'' @ u16 ''x''"
    by code_simp
  have v3: "new_Date (Some ((if [0x2D] = [0x2D::codeunit] then - 1 else 1)
      * int (digits_val (u16 ''12'')))) = Date (Some (- 12))"
    by code_simp
  have a3: "list_all is_StrWhiteSpaceChar (u16 '' '')" "list_all is_digit (u16 ''12'')"
    "u16 ''12'' \<noteq> []" "\<not> is_digit (hd (u16 ''x''))"
    by code_simp+
  have w3: "bufferToDate (Given (Buffer_from (u16 '' -12x''))) =
      new_Date (Some ((if [0x2D] = [0x2D::codeunit] then - 1 else 1) * int (digits_val (u16 ''12''))))"
    using bufferToDate_cases [of "Buffer_from (u16 '' -12x'')" "u16 '' ''" "[0x2D]"
            "u16 ''12''" "u16 ''x''"] d3 a3
    by blast
  from w1 v1 have r1: "bufferToDate (Given (Buffer_from (u16 ''1609459200000''))) =
      Date (Some 1609459200000)"
    by (rule trans)
  from w3 v3 have r3: "bufferToDate (Given (Buffer_from (u16 '' -12x''))) = Date (Some (- 12))"
    by (rule trans)
  from r1 w2 r3 show ?thesis by (intro conjI)
qed

text \<open>
  C2, as stated, on the iterator whose second \<open>next()\<close> raises: the error leaves
  \<open>iteratorToList\<close> from inside the loop (line 132), line 146 is never reached, and
  \<open>close()\<close> has been called zero times, not once.
\<close>

theorem drain_skips_close_counterexample:
  "iteratorToList (fresh failing_script) =
     Some (Inl (Thrown (u16 ''boom'')), \<lparr>script = failing_script, calls = 2, closed = 0\<rparr>)"
proof -
  have q: "quiet list_item (failing_script 0)"
    by (simp add: quiet_def failing_script_def sample_script_def push_item_def list_item_def)
  have "cut_off_at list_item (fresh failing_script) 1 (Thrown (u16 ''boom''))"
    using q by (simp add: cut_off_at_def quiet_until_def fresh_def failing_script_def)
  then show ?thesis
    by (simp add: iteratorToList_def drain_cut_off) (simp add: fresh_def)
qed

text \<open>
  C2, amended: when a run of any of the three drains completes (every \<open>next()\<close>
  returns, none of the loop bodies raises, and call \<open>n\<close> is the first to report
  \<open>done\<close>), \<open>close()\<close> is called exactly once, after the loop, and the list of
  everything pushed is returned. When call \<open>n\<close> of \<open>next()\<close> raises instead, the error
  is the outcome of the drain and \<open>close()\<close> is not called.
\<close>

theorem drains_close_once_when_done:
  "(completes_at list_item it n \<longrightarrow>
      iteratorToList it =
        Some (Inr (collected list_item (script it) (calls it) (Suc n)),
              it\<lparr>calls := Suc n, closed := Suc (closed it)\<rparr>))
   \<and> (completes_at kv_item it n \<longrightarrow>
      iteratorToKVList it =
        Some (Inr (collected kv_item (script it) (calls it) (Suc n)),
              it\<lparr>calls := Suc n, closed := Suc (closed it)\<rparr>))
   \<and> (completes_at history_item it n \<longrightarrow>
      iteratorToHistoryList it =
        Some (Inr (collected history_item (script it) (calls it) (Suc n)),
              it\<lparr>calls := Suc n, closed := Suc (closed it)\<rparr>))
   \<and> (cut_off_at list_item it n e \<longrightarrow>
      iteratorToList it = Some (Inl e, it\<lparr>calls := Suc n\<rparr>))
   \<and> (cut_off_at kv_item it n e \<longrightarrow>
      iteratorToKVList it = Some (Inl e, it\<lparr>calls := Suc n\<rparr>))
   \<and> (cut_off_at history_item it n e \<longrightarrow>
      iteratorToHistoryList it = Some (Inl e, it\<lparr>calls := Suc n\<rparr>))"
  by (simp add: iteratorToList_def iteratorToKVList_def iteratorToHistoryList_def
        drain_completes drain_cut_off)

theorem drains_close_once_when_done_witness:
  "iteratorToList (fresh sample_script) =
     Some (Inr [Num (num_of_int 0), Num (num_of_int 1), Num (num_of_int 2)],
           \<lparr>script = sample_script, calls = 4, closed = 1\<rparr>)
   \<and> iteratorToHistoryList (fresh history_done_script) =
     Some (Inr [\<lparr>is_delete = Some True, kmi_value = Str (u16 ''v''),
                 kmi_timestamp = 100, tx_id = Some (u16 ''tx1'')\<rparr>],
           \<lparr>script = history_done_script, calls = 2, closed = 1\<rparr>)
   \<and> iteratorToKVList (fresh failing_script) =
     Some (Inl (Thrown (u16 ''boom'')), \<lparr>script = failing_script, calls = 2, closed = 0\<rparr>)"
proof -
  have c1: "completes_at list_item (fresh sample_script) 3"
    by (simp add: completes_at_def quiet_until_def fresh_def sample_quiet)
       (simp add: sample_script_def finished_def push_item_def)
  have l1: "collected list_item sample_script 0 4 =
      [Num (num_of_int 0), Num (num_of_int 1), Num (num_of_int 2)]"
    by code_simp
  have c2: "completes_at history_item (fresh history_done_script) 1"
    by (simp add: completes_at_def quiet_until_def fresh_def)
       (simp add: history_done_script_def finished_def push_item_def quiet_def history_item_def
          history_item_v_def)
  have l2: "collected history_item history_done_script 0 (Suc (Suc 0)) =
      [\<lparr>is_delete = Some True, kmi_value = Str (u16 ''v''),
        kmi_timestamp = 100, tx_id = Some (u16 ''tx1'')\<rparr>]"
    by code_simp
  have c3: "cut_off_at kv_item (fresh failing_script) 1 (Thrown (u16 ''boom''))"
    by (simp add: cut_off_at_def quiet_until_def fresh_def)
       (simp add: failing_script_def sample_script_def quiet_def push_item_def kv_item_def)
  show ?thesis
    using drains_close_once_when_done [of "fresh sample_script" 3 "Thrown (u16 ''boom'')"]
      drains_close_once_when_done [of "fresh history_done_script" 1 "Thrown (u16 ''boom'')"]
      drains_close_once_when_done [of "fresh failing_script" 1 "Thrown (u16 ''boom'')"]
      c1 c2 c3
    by (simp add: fresh_def l1 l2)
qed

text \<open>
  C10. When the history drain reaches (after quiet calls) an item with a non-empty
  payload and no timestamp, line 210 raises a \<open>TypeError\<close>: nothing is appended, no list
  is returned, and \<open>close()\<close> is not called. This holds whether or not that result is
  marked \<open>done\<close>.
\<close>

theorem history_without_timestamp_raises:
  assumes "quiet_until history_item it n"
    and "script it n = Yields res"
    and "res_value res = Some i"
    and "utf8_decode (item_value i) \<noteq> []"
    and "item_timestamp i = None"
  shows "iteratorToHistoryList it = Some (Inl TypeError, it\<lparr>calls := Suc n\<rparr>)"
proof -
  from assms(3-5) have "push_item history_item res [] = Inl TypeError"
    by (simp add: push_item_def history_item_def)
  with assms(1,2) show ?thesis
    by (simp add: iteratorToHistoryList_def drain_body_raises)
qed

theorem history_without_timestamp_raises_witness:
  "iteratorToHistoryList (fresh history_script) =
     Some (Inl TypeError, \<lparr>script = history_script, calls = 2, closed = 0\<rparr>)"
proof -
  have q: "quiet_until history_item (fresh history_script) 1"
    by (simp add: quiet_until_def fresh_def)
       (simp add: history_script_def quiet_def push_item_def history_item_def history_item_v_def)
  have s: "script (fresh history_script) 1 =
      Yields \<lparr>res_value = Some (valued_item (u16 ''1'')), res_done = False\<rparr>"
    by (simp add: fresh_def history_script_def)
  have d: "utf8_decode (item_value (valued_item (u16 ''1''))) \<noteq> []"
    by code_simp
  have t: "item_timestamp (valued_item (u16 ''1'')) = None"
    by (simp add: valued_item_def)
  show ?thesis
    using history_without_timestamp_raises [OF q s _ d t] by (simp add: fresh_def)
qed

end
